theory Spec2Isabelle
  imports Complex_Main "HOL-Library.Sublist"
begin

section \<open>Strings\<close>

text \<open>
  A JavaScript string is represented by the bytes of its UTF-8 encoding, as a HOL
  \<open>string\<close>. This is the form \<open>Buffer.from(s)\<close> produces, and the patterns the
  program searches for (\<open>.txt\<close>, \<open>www.dropbox.com\<close>, \<open>?dl=0\<close>) are ASCII, so
  suffix tests and first-occurrence replacement agree in both representations.
\<close>

text \<open>\<open>s.endsWith(search)\<close>: the last \<open>search.length\<close> units of \<open>s\<close> are \<open>search\<close>.\<close>

definition endsWith :: "string \<Rightarrow> string \<Rightarrow> bool" where
  "endsWith s search =
     (if length s < length search then False
      else drop (length s - length search) s = search)"

text \<open>
  \<open>s.replace(pat, rep)\<close> with a string pattern: only the first occurrence of
  \<open>pat\<close> is replaced (the replacement strings of the program hold no \<open>$\<close>).
\<close>

fun replace :: "string \<Rightarrow> string \<Rightarrow> string \<Rightarrow> string" where
  "replace pat rep [] = (if pat = [] then rep else [])"
| "replace pat rep (c # cs) =
     (if prefix pat (c # cs) then rep @ drop (length pat) (c # cs)
      else c # replace pat rep cs)"

subsection \<open>Base64\<close>

text \<open>\<open>Buffer.from(s).toString("base64")\<close>: the standard alphabet, padded with \<open>=\<close>.\<close>

definition b64_alphabet :: string where
  "b64_alphabet = ''ABCDEFGHIJKLMNOPQRSTUVWXYZabcdefghijklmnopqrstuvwxyz0123456789+/''"

definition b64_digit :: "nat \<Rightarrow> char" where
  "b64_digit n = b64_alphabet ! n"

fun base64 :: "string \<Rightarrow> string" where
  "base64 [] = []"
| "base64 [a] =
     (let x = (of_char a :: nat)
      in [b64_digit (x div 4), b64_digit ((x mod 4) * 16), CHR ''='', CHR ''=''])"
| "base64 [a, b] =
     (let x = (of_char a :: nat); y = (of_char b :: nat)
      in [b64_digit (x div 4), b64_digit ((x mod 4) * 16 + y div 16),
          b64_digit ((y mod 16) * 4), CHR ''=''])"
| "base64 (a # b # c # rest) =
     (let x = (of_char a :: nat); y = (of_char b :: nat); z = (of_char c :: nat)
      in [b64_digit (x div 4), b64_digit ((x mod 4) * 16 + y div 16),
          b64_digit ((y mod 16) * 4 + z div 64), b64_digit (z mod 64)] @ base64 rest)"

section \<open>Data model\<close>

text \<open>The module-level cache \<open>dropboxTokens\<close> holds a value of this interface or null.\<close>

record DropboxTokens =
  access_token :: string
  refresh_token :: string
  expires_at :: int

text \<open>The variables of \<open>process.env\<close> the program reads; unset is \<open>None\<close>.\<close>

record env =
  DROPBOX_APP_KEY :: "string option"
  DROPBOX_APP_SECRET :: "string option"
  DROPBOX_REFRESH_TOKEN :: "string option"
  PORT :: "string option"

text \<open>The fields of the token endpoint's JSON answer that the program reads.\<close>

record token_data =
  data_access_token :: string
  data_refresh_token :: "string option"
  data_expires_in :: int

text \<open>
  What \<open>await fetch(...)\<close> followed by \<open>await response.json()\<close> can give: the
  request is rejected (network failure), or there is a response with its \<open>ok\<close> flag, its
  \<open>statusText\<close> and its body, \<open>None\<close> when the body does not parse as JSON.
\<close>

datatype fetch_outcome =
  NetworkFailure string
| HttpResponse bool string "token_data option"

datatype error =
  MissingCredentials
| RefreshFailed string
| FetchFailed string
| JsonError
| DropboxError string
| TypeError
| ElasticError string

datatype console = Log string | Warn string | Error string error

datatype Dropbox = Dropbox (accessToken: string)

text \<open>An entry of a folder listing; \<open>server_modified\<close> is present on files only.\<close>

record entry =
  name :: string
  path_lower :: string
  server_modified :: "string option"

record ListFolderResult =
  entries :: "entry list"
  cursor :: string
  has_more :: bool

record FileDocument =
  filename :: string
  content :: string
  path :: string
  lastModified :: "string option"
  url :: string

record hit =
  hit_source :: "FileDocument option"
  hit_score :: "real option"
  hit_highlight :: "(string \<rightharpoonup> string list) option"

record SearchResult =
  sr_filename :: string
  sr_url :: string
  sr_lastModified :: string
  sr_score :: real
  sr_excerpt :: "string option"

text \<open>
  The outside world, as the answers it gives. The clock and the token endpoint are
  indexed by the number of earlier calls, the storage and index calls by their argument.
  \<open>filesListFolderContinue\<close> is the storage provider's call for the pages after the
  first one; it is part of the provider, and the program never calls it.
\<close>

record world =
  process_env :: env
  Date_now :: "nat \<Rightarrow> int"
  oauth2_token :: "nat \<Rightarrow> string \<times> string \<times> string \<Rightarrow> fetch_outcome"
  filesListFolder :: "error + ListFolderResult"
  filesListFolderContinue :: "string \<Rightarrow> error + ListFolderResult"
  sharingListSharedLinks :: "string \<Rightarrow> error + string list"
  sharingCreateSharedLink :: "string \<Rightarrow> error + string"
  filesDownload :: "string \<Rightarrow> error + string option"
  es_index_request :: "string \<Rightarrow> FileDocument \<Rightarrow> error option"
  es_indices_exists :: "error option"
  es_indices_create :: "error option"
  es_search :: "string \<Rightarrow> error + hit list"

text \<open>
  The state the program changes: its token cache, the search index (documents by id, and
  the field mappings when the index exists), what it wrote to the console, and how many
  times it has read the clock, called the token endpoint and queried the index.
\<close>

record state =
  dropboxTokens :: "DropboxTokens option"
  es_docs :: "string \<rightharpoonup> FileDocument"
  es_mappings :: "(string \<times> string) list option"
  console_out :: "console list"
  clock_reads :: nat
  token_requests :: nat
  search_requests :: "string list"

definition say :: "console \<Rightarrow> state \<Rightarrow> state" where
  "say c s = s\<lparr>console_out := console_out s @ [c]\<rparr>"

section \<open>The token cache\<close>

text \<open>
  The body of the \<open>try\<close> block of \<open>getDropboxClient\<close>: one POST to the token endpoint;
  on success the cache is replaced, with the expiry read from the clock after the answer.
\<close>

definition refresh :: "world \<Rightarrow> string \<Rightarrow> string \<Rightarrow> string \<Rightarrow> state \<Rightarrow> (error + unit) \<times> state" where
  "refresh w key secret rtok s =
     (let s1 = s\<lparr>token_requests := Suc (token_requests s)\<rparr>
      in case oauth2_token w (token_requests s) (rtok, key, secret) of
           NetworkFailure m \<Rightarrow> (Inl (FetchFailed m), s1)
         | HttpResponse ok statusText body \<Rightarrow>
             if \<not> ok then (Inl (RefreshFailed statusText), s1)
             else (case body of
                     None \<Rightarrow> (Inl JsonError, s1)
                   | Some data \<Rightarrow>
                       (Inr (),
                        say (Log ''Successfully refreshed Dropbox access token'')
                          (s1\<lparr>clock_reads := Suc (clock_reads s1),
                              dropboxTokens := Some
                                \<lparr>access_token = data_access_token data,
                                 refresh_token =
                                   (case data_refresh_token data of
                                      None \<Rightarrow> rtok
                                    | Some r \<Rightarrow> if r = [] then rtok else r),
                                 expires_at =
                                   Date_now w (clock_reads s1) + data_expires_in data * 1000\<rparr>\<rparr>))))"

text \<open>The \<open>try\<close>/\<open>catch\<close> around it: the error is written to the console and thrown again.\<close>

definition refresh_logged :: "world \<Rightarrow> string \<Rightarrow> string \<Rightarrow> string \<Rightarrow> state \<Rightarrow> (error + unit) \<times> state" where
  "refresh_logged w key secret rtok s =
     (case refresh w key secret rtok s of
        (Inl e, s') \<Rightarrow> (Inl e, say (Error ''Error refreshing Dropbox token:'' e) s')
      | (Inr u, s') \<Rightarrow> (Inr u, s'))"

text \<open>The final \<open>return new Dropbox({accessToken: dropboxTokens.access_token})\<close>.\<close>

definition client_of :: "state \<Rightarrow> (error + Dropbox) \<times> state" where
  "client_of s =
     (case dropboxTokens s of
        None \<Rightarrow> (Inl TypeError, s)
      | Some t \<Rightarrow> (Inr (Dropbox (access_token t)), s))"

definition getDropboxClient :: "world \<Rightarrow> state \<Rightarrow> (error + Dropbox) \<times> state" where
  "getDropboxClient w s =
     (case (DROPBOX_APP_KEY (process_env w), DROPBOX_APP_SECRET (process_env w),
            DROPBOX_REFRESH_TOKEN (process_env w)) of
        (Some key, Some secret, Some rtok) \<Rightarrow>
          if key = [] \<or> secret = [] \<or> rtok = [] then (Inl MissingCredentials, s)
          else (case dropboxTokens s of
                  None \<Rightarrow>
                    (case refresh_logged w key secret rtok s of
                       (Inl e, s') \<Rightarrow> (Inl e, s')
                     | (Inr u, s') \<Rightarrow> client_of s')
                | Some t \<Rightarrow>
                    (let s1 = s\<lparr>clock_reads := Suc (clock_reads s)\<rparr>
                     in if Date_now w (clock_reads s) \<ge> expires_at t
                        then (case refresh_logged w key secret rtok s1 of
                                (Inl e, s') \<Rightarrow> (Inl e, s')
                              | (Inr u, s') \<Rightarrow> client_of s')
                        else client_of s1))
      | _ \<Rightarrow> (Inl MissingCredentials, s))"

section \<open>The index schema\<close>

definition schema :: "(string \<times> string) list" where
  "schema = [(''filename'', ''keyword''), (''content'', ''text''), (''path'', ''keyword''),
             (''lastModified'', ''date''), (''url'', ''keyword'')]"

definition initializeIndex :: "world \<Rightarrow> state \<Rightarrow> (error + unit) \<times> state" where
  "initializeIndex w s =
     (case es_indices_exists w of
        Some e \<Rightarrow> (Inl e, say (Error ''Error creating index:'' e) s)
      | None \<Rightarrow>
          (case es_mappings s of
             Some m \<Rightarrow> (Inr (), s)
           | None \<Rightarrow>
               (case es_indices_create w of
                  Some e \<Rightarrow> (Inl e, say (Error ''Error creating index:'' e) s)
                | None \<Rightarrow> (Inr (), s\<lparr>es_mappings := Some schema\<rparr>))))"

section \<open>The sync run\<close>

text \<open>The two chained \<open>replace\<close> calls applied to a shared link's URL.\<close>

definition normalize_link :: "string \<Rightarrow> string" where
  "normalize_link u =
     replace ''?dl=0'' '''' (replace ''www.dropbox.com'' ''dl.dropboxusercontent.com'' u)"

text \<open>The body of the inner \<open>try\<close>: the first existing link, or a newly created one.\<close>

definition shared_link :: "world \<Rightarrow> entry \<Rightarrow> error + string" where
  "shared_link w f =
     (case sharingListSharedLinks w (path_lower f) of
        Inl e \<Rightarrow> Inl e
      | Inr [] \<Rightarrow>
          (case sharingCreateSharedLink w (path_lower f) of
             Inl e \<Rightarrow> Inl e
           | Inr u \<Rightarrow> Inr (normalize_link u))
      | Inr (l # ls) \<Rightarrow> Inr (normalize_link l))"

text \<open>With its \<open>catch\<close>: any failure gives the placeholder and a warning.\<close>

definition direct_link :: "world \<Rightarrow> entry \<Rightarrow> state \<Rightarrow> string \<times> state" where
  "direct_link w f s =
     (case shared_link w f of
        Inr u \<Rightarrow> (u, s)
      | Inl e \<Rightarrow>
          (''temporary-link-for-'' @ name f,
           say (Warn (''Could not create shared link for '' @ name f @
                      '', using temporary link'')) s))"

definition doc_id :: "entry \<Rightarrow> string" where
  "doc_id f = base64 (path_lower f)"

text \<open>
  The body of the per-file \<open>try\<close>: client, link, download, decode, index write. The
  download answers with the text of \<open>fileBinary\<close>, or \<open>None\<close> when the answer has no
  \<open>fileBinary\<close> (reading it then throws). A successful write stores the document under
  its id, replacing what was there.
\<close>

text \<open>The \<open>body\<close> of the index request.\<close>

definition document :: "entry \<Rightarrow> string \<Rightarrow> string \<Rightarrow> FileDocument" where
  "document f fileText directLink =
     \<lparr>filename = name f, content = fileText, path = path_lower f,
      lastModified = server_modified f, url = directLink\<rparr>"

definition index_file :: "world \<Rightarrow> entry \<Rightarrow> state \<Rightarrow> (error + unit) \<times> state" where
  "index_file w f s =
     (case getDropboxClient w s of
        (Inl e, s1) \<Rightarrow> (Inl e, s1)
      | (Inr dbx, s1) \<Rightarrow>
          (case direct_link w f s1 of
             (directLink, s2) \<Rightarrow>
               (case filesDownload w (path_lower f) of
                  Inl e \<Rightarrow> (Inl e, s2)
                | Inr None \<Rightarrow> (Inl TypeError, s2)
                | Inr (Some fileText) \<Rightarrow>
                    (let doc = document f fileText directLink
                     in case es_index_request w (doc_id f) doc of
                          Some e \<Rightarrow> (Inl e, s2)
                        | None \<Rightarrow>
                            (Inr (),
                             say (Log (''Indexed file: '' @ name f))
                               (s2\<lparr>es_docs := (es_docs s2)(doc_id f \<mapsto> doc)\<rparr>))))))"

text \<open>One iteration of the loop: the \<open>catch\<close> writes the error and continues.\<close>

definition process_file :: "world \<Rightarrow> entry \<Rightarrow> state \<Rightarrow> state" where
  "process_file w f s =
     (case index_file w f s of
        (Inl e, s') \<Rightarrow> say (Error (''Error processing file '' @ name f @ '':'') e) s'
      | (Inr u, s') \<Rightarrow> s')"

primrec process_files :: "world \<Rightarrow> entry list \<Rightarrow> state \<Rightarrow> state" where
  "process_files w [] s = s"
| "process_files w (f # fs) s = process_files w fs (process_file w f s)"

text \<open>The filter applied to the entries of the listing's answer.\<close>

definition text_files :: "ListFolderResult \<Rightarrow> entry list" where
  "text_files listResult = filter (\<lambda>e. endsWith (name e) ''.txt'') (entries listResult)"

fun show_nat :: "nat \<Rightarrow> string" where
  "show_nat n =
     (if n < 10 then [char_of (48 + n)]
      else show_nat (n div 10) @ [char_of (48 + n mod 10)])"

declare show_nat.simps [simp del]

definition indexDropboxFiles :: "world \<Rightarrow> state \<Rightarrow> (error + unit) \<times> state" where
  "indexDropboxFiles w s =
     (case getDropboxClient w s of
        (Inl e, s1) \<Rightarrow> (Inl e, say (Error ''Error indexing files:'' e) s1)
      | (Inr dbx, s1) \<Rightarrow>
          (case filesListFolder w of
             Inl e \<Rightarrow> (Inl e, say (Error ''Error indexing files:'' e) s1)
           | Inr listResult \<Rightarrow>
               (let textFiles = text_files listResult
                in (Inr (),
                    process_files w textFiles
                      (say (Log (''Found '' @ show_nat (length textFiles) @
                                 '' text files to index'')) s1)))))"

text \<open>The callback of \<open>app.listen\<close>: the whole run; a failure ends the process.\<close>

definition port :: "env \<Rightarrow> string" where
  "port e = (case PORT e of None \<Rightarrow> ''3001'' | Some p \<Rightarrow> if p = [] then ''3001'' else p)"

definition startup :: "world \<Rightarrow> state \<Rightarrow> (error + unit) \<times> state" where
  "startup w s =
     (case getDropboxClient w s of
        (Inl e, s1) \<Rightarrow> (Inl e, say (Error ''Failed to initialize server:'' e) s1)
      | (Inr dbx, s1) \<Rightarrow>
          (case initializeIndex w s1 of
             (Inl e, s2) \<Rightarrow> (Inl e, say (Error ''Failed to initialize server:'' e) s2)
           | (Inr u, s2) \<Rightarrow>
               (case indexDropboxFiles w s2 of
                  (Inl e, s3) \<Rightarrow> (Inl e, say (Error ''Failed to initialize server:'' e) s3)
                | (Inr u', s3) \<Rightarrow>
                    (Inr (), say (Log (''Server running on port '' @ port (process_env w))) s3))))"

text \<open>
  The storage provider's complete listing: the entries of the first page, followed by
  those of the pages reached through the cursor for as long as \<open>has_more\<close> is set.
  \<open>None\<close> when a page cannot be read or the fuel runs out.
\<close>

fun complete_listing :: "nat \<Rightarrow> world \<Rightarrow> ListFolderResult \<Rightarrow> entry list option" where
  "complete_listing 0 w r = (if has_more r then None else Some (entries r))"
| "complete_listing (Suc n) w r =
     (if \<not> has_more r then Some (entries r)
      else (case filesListFolderContinue w (cursor r) of
              Inl e \<Rightarrow> None
            | Inr r' \<Rightarrow> map_option (\<lambda>es. entries r @ es) (complete_listing n w r')))"

section \<open>The search endpoint\<close>

datatype body = ErrorBody string | Results "SearchResult list"

record response =
  status :: nat
  json :: body

definition excerpt_of :: "hit \<Rightarrow> string option" where
  "excerpt_of h =
     (case hit_highlight h of
        None \<Rightarrow> None
      | Some hl \<Rightarrow>
          (case hl ''content'' of
             None \<Rightarrow> None
           | Some [] \<Rightarrow> None
           | Some (x # xs) \<Rightarrow> Some x))"

definition to_result :: "hit \<Rightarrow> SearchResult" where
  "to_result h =
     \<lparr>sr_filename = (case hit_source h of None \<Rightarrow> '''' | Some d \<Rightarrow> filename d),
      sr_url = (case hit_source h of None \<Rightarrow> '''' | Some d \<Rightarrow> url d),
      sr_lastModified =
        (case hit_source h of
           None \<Rightarrow> ''''
         | Some d \<Rightarrow> (case lastModified d of None \<Rightarrow> '''' | Some t \<Rightarrow> t)),
      sr_score = (case hit_score h of None \<Rightarrow> 0 | Some x \<Rightarrow> x),
      sr_excerpt = excerpt_of h\<rparr>"

definition search :: "world \<Rightarrow> string option \<Rightarrow> state \<Rightarrow> response \<times> state" where
  "search w q s =
     (case q of
        None \<Rightarrow> (\<lparr>status = 400, json = ErrorBody ''Search term is required''\<rparr>, s)
      | Some searchTerm \<Rightarrow>
          if searchTerm = [] then
            (\<lparr>status = 400, json = ErrorBody ''Search term is required''\<rparr>, s)
          else
            (let s1 = s\<lparr>search_requests := search_requests s @ [searchTerm]\<rparr>
             in case es_search w searchTerm of
                  Inl e \<Rightarrow>
                    (\<lparr>status = 500, json = ErrorBody ''Search failed''\<rparr>,
                     say (Error ''Search error:'' e) s1)
                | Inr hits \<Rightarrow> (\<lparr>status = 200, json = Results (map to_result hits)\<rparr>, s1)))"

section \<open>Specification predicates and example inputs\<close>

text \<open>Every document of the index is stored under the encoding of its own path.\<close>

definition keyed_by_path :: "(string \<rightharpoonup> FileDocument) \<Rightarrow> bool" where
  "keyed_by_path m \<longleftrightarrow> (\<forall>i d. m i = Some d \<longrightarrow> i = base64 (path d))"

text \<open>The ids a listing can give rise to.\<close>

definition listed_ids :: "world \<Rightarrow> string set" where
  "listed_ids w =
     (case filesListFolder w of Inl e \<Rightarrow> {} | Inr r \<Rightarrow> doc_id ` set (text_files r))"

text \<open>The three credentials are set in the environment, and none is empty.\<close>

definition has_credentials :: "world \<Rightarrow> string \<Rightarrow> string \<Rightarrow> string \<Rightarrow> bool" where
  "has_credentials w key secret rtok \<longleftrightarrow>
     DROPBOX_APP_KEY (process_env w) = Some key \<and> key \<noteq> [] \<and>
     DROPBOX_APP_SECRET (process_env w) = Some secret \<and> secret \<noteq> [] \<and>
     DROPBOX_REFRESH_TOKEN (process_env w) = Some rtok \<and> rtok \<noteq> []"

text \<open>The cache is empty, or the clock read by the next call has reached the expiry.\<close>

definition needs_refresh :: "world \<Rightarrow> state \<Rightarrow> bool" where
  "needs_refresh w s =
     (case dropboxTokens s of
        None \<Rightarrow> True
      | Some t \<Rightarrow> expires_at t \<le> Date_now w (clock_reads s))"


text \<open>An exchange fails: no response, a response that is not ok, or an unreadable body.\<close>

fun exchange_fails :: "fetch_outcome \<Rightarrow> bool" where
  "exchange_fails (NetworkFailure m) = True"
| "exchange_fails (HttpResponse ok statusText body) = (\<not> ok \<or> body = None)"

text \<open>
  The chain of one entry succeeds from a state: the client is obtained, the download
  answers with the text of a file, and the index accepts the document built from it.
  The answers about shared links play no part.
\<close>

definition chain_ok :: "world \<Rightarrow> entry \<Rightarrow> state \<Rightarrow> bool" where
  "chain_ok w f s =
     (case getDropboxClient w s of
        (Inl e, s1) \<Rightarrow> False
      | (Inr dbx, s1) \<Rightarrow>
          (case filesDownload w (path_lower f) of
             Inl e \<Rightarrow> False
           | Inr None \<Rightarrow> False
           | Inr (Some t) \<Rightarrow>
               es_index_request w (doc_id f) (document f t (fst (direct_link w f s1))) = None))"

text \<open>A run started in a state obtains its client and reads the text files \<open>fs\<close>.\<close>

definition enumerates :: "world \<Rightarrow> state \<Rightarrow> entry list \<Rightarrow> bool" where
  "enumerates w s fs \<longleftrightarrow>
     \<not> isl (fst (getDropboxClient w s)) \<and>
     (case filesListFolder w of Inl e \<Rightarrow> False | Inr r \<Rightarrow> text_files r = fs)"

text \<open>The state in which such a run enters its loop.\<close>

definition loop_start :: "world \<Rightarrow> state \<Rightarrow> entry list \<Rightarrow> state" where
  "loop_start w s fs =
     say (Log (''Found '' @ show_nat (length fs) @ '' text files to index''))
       (snd (getDropboxClient w s))"


text \<open>The index holds a document with the given path.\<close>

definition has_document :: "(string \<rightharpoonup> FileDocument) \<Rightarrow> string \<Rightarrow> bool" where
  "has_document m p \<longleftrightarrow> (\<exists>j d. m j = Some d \<and> path d = p)"

text \<open>
  In the run started in a state, some listed text file with the given path has a chain
  that succeeds from the state the loop has reached when its turn comes.
\<close>

definition chain_succeeds_for :: "world \<Rightarrow> state \<Rightarrow> string \<Rightarrow> bool" where
  "chain_succeeds_for w s p \<longleftrightarrow>
     (\<exists>pre f post. enumerates w s (pre @ f # post) \<and> path_lower f = p \<and>
        chain_ok w f (process_files w pre (loop_start w s (pre @ f # post))))"

text \<open>The state of a process that has just started, with an empty index.\<close>

definition initial_state :: state where
  "initial_state =
     \<lparr>dropboxTokens = None, es_docs = Map.empty, es_mappings = None, console_out = [],
      clock_reads = 0, token_requests = 0, search_requests = []\<rparr>"

definition file_a :: entry where
  "file_a = \<lparr>name = ''a.txt'', path_lower = ''/a.txt'', server_modified = Some ''2024-01-01''\<rparr>"

definition file_b :: entry where
  "file_b = \<lparr>name = ''b.txt'', path_lower = ''/b.txt'', server_modified = Some ''2024-01-02''\<rparr>"

definition file_c :: entry where
  "file_c = \<lparr>name = ''c.txt'', path_lower = ''/c.txt'', server_modified = Some ''2024-01-03''\<rparr>"

definition file_md :: entry where
  "file_md = \<lparr>name = ''notes.md'', path_lower = ''/notes.md'', server_modified = None\<rparr>"

definition demo_env :: env where
  "demo_env =
     \<lparr>DROPBOX_APP_KEY = Some ''key'', DROPBOX_APP_SECRET = Some ''secret'',
      DROPBOX_REFRESH_TOKEN = Some ''refresh'', PORT = None\<rparr>"

definition demo_token :: token_data where
  "demo_token =
     \<lparr>data_access_token = ''token'', data_refresh_token = None, data_expires_in = 14400\<rparr>"

definition demo_hit :: hit where
  "demo_hit =
     \<lparr>hit_source = Some (document file_a ''hello world'' ''https://dl.dropboxusercontent.com/s/abc''),
      hit_score = Some 1,
      hit_highlight = Some [''content'' \<mapsto> [''<em>hello</em> world'']]\<rparr>"

text \<open>
  A world with three text files: \<open>a.txt\<close> has a shared link, the download of \<open>b.txt\<close>
  fails, and neither listing nor creating a link works for \<open>c.txt\<close>. The clock advances
  ten thousand seconds per reading and every token exchange succeeds, with a lifetime
  of four hours.
\<close>

definition demo_world :: world where
  "demo_world =
     \<lparr>process_env = demo_env,
      Date_now = (\<lambda>n. 10000000 * int n),
      oauth2_token = (\<lambda>n req. HttpResponse True ''OK'' (Some demo_token)),
      filesListFolder =
        Inr \<lparr>entries = [file_a, file_md, file_b, file_c], cursor = ''c1'', has_more = False\<rparr>,
      filesListFolderContinue = (\<lambda>c. Inl (DropboxError ''reset'')),
      sharingListSharedLinks =
        (\<lambda>p. if p = ''/a.txt'' then Inr [''https://www.dropbox.com/s/abc?dl=0'']
             else if p = ''/c.txt'' then Inl (DropboxError ''too_many_requests'')
             else Inr []),
      sharingCreateSharedLink =
        (\<lambda>p. if p = ''/c.txt'' then Inl (DropboxError ''too_many_requests'')
             else Inr ''https://www.dropbox.com/s/new?dl=0''),
      filesDownload =
        (\<lambda>p. if p = ''/b.txt'' then Inl (DropboxError ''not_found'')
             else Inr (Some ''hello world'')),
      es_index_request = (\<lambda>i d. None),
      es_indices_exists = None,
      es_indices_create = None,
      es_search =
        (\<lambda>q. if q = ''hello'' then Inr [demo_hit] else Inl (ElasticError ''unavailable''))\<rparr>"

text \<open>A cache holding a token that expired long ago, and a world that refuses to renew it.\<close>

definition stale_state :: state where
  "stale_state =
     initial_state\<lparr>dropboxTokens :=
       Some \<lparr>access_token = ''old'', refresh_token = ''refresh'', expires_at = 0\<rparr>\<rparr>"

definition refusing_world :: world where
  "refusing_world =
     demo_world\<lparr>oauth2_token := (\<lambda>n req. HttpResponse False ''Unauthorized'' None)\<rparr>"


text \<open>
  A storage account whose listing comes in two pages: the first holds \<open>a.txt\<close> and
  announces more, the second holds \<open>c.txt\<close>.
\<close>

definition first_page :: ListFolderResult where
  "first_page = \<lparr>entries = [file_a], cursor = ''c1'', has_more = True\<rparr>"

definition paged_world :: world where
  "paged_world =
     demo_world
       \<lparr>filesListFolder := Inr first_page,
        filesListFolderContinue :=
          (\<lambda>c. if c = ''c1'' then Inr \<lparr>entries = [file_c], cursor = ''c2'', has_more = False\<rparr>
               else Inl (DropboxError ''reset''))\<rparr>"

section \<open>Base64 is injective\<close>

lemma b64_alphabet_distinct: "distinct b64_alphabet"
  by (simp add: b64_alphabet_def)

lemma b64_alphabet_length: "length b64_alphabet = 64"
  by (simp add: b64_alphabet_def)

lemma b64_alphabet_no_pad: "CHR ''='' \<notin> set b64_alphabet"
  by (simp add: b64_alphabet_def)

lemma b64_digit_inj: "i < 64 \<Longrightarrow> j < 64 \<Longrightarrow> b64_digit i = b64_digit j \<Longrightarrow> i = j"
  unfolding b64_digit_def
  using b64_alphabet_distinct b64_alphabet_length by (simp add: nth_eq_iff_index_eq)

lemma b64_digit_not_pad: "i < 64 \<Longrightarrow> b64_digit i \<noteq> CHR ''=''"
  unfolding b64_digit_def
  using b64_alphabet_no_pad b64_alphabet_length by (metis nth_mem)

lemma byte_bound: "(of_char (c::char) :: nat) < 256"
  by simp

lemma byte_inj: "(of_char a :: nat) = of_char b \<Longrightarrow> a = b"
  by simp

lemma split_pair:
  fixes a b a' b' k :: nat
  assumes "b < k" "b' < k" "a * k + b = a' * k + b'"
  shows "a = a' \<and> b = b'"
proof -
  have "(a * k + b) div k = a" "(a' * k + b') div k = a'"
    using assms(1,2) by simp_all
  with assms(3) have "a = a'" by simp
  with assms(3) show ?thesis by simp
qed

lemma div_mod_eq:
  fixes x x' k :: nat
  assumes "x div k = x' div k" "x mod k = x' mod k"
  shows "x = x'"
  by (metis assms div_mult_mod_eq)

lemma sextets1:
  fixes x x' :: nat
  assumes "x div 4 = x' div 4" and "(x mod 4) * 16 = (x' mod 4) * 16"
  shows "x = x'"
  proof (rule div_mod_eq [of x 4 x'])
  show "x div 4 = x' div 4" by (rule assms(1))
  show "x mod 4 = x' mod 4" using assms(2) by simp
qed

lemma sextets2:
  fixes x y x' y' :: nat
  assumes "x div 4 = x' div 4"
    and "(x mod 4) * 16 + y div 16 = (x' mod 4) * 16 + y' div 16"
    and "(y mod 16) * 4 = (y' mod 16) * 4"
    and "y < 256" "y' < 256"
  shows "x = x' \<and> y = y'"
proof -
  have "y div 16 < 16" "y' div 16 < 16" using assms(4,5) by simp_all
  from split_pair [OF this assms(2)] have "x mod 4 = x' mod 4" "y div 16 = y' div 16"
    by simp_all
  moreover have "y mod 16 = y' mod 16" using assms(3) by simp
  ultimately show ?thesis
    using assms(1) div_mod_eq [of x 4 x'] div_mod_eq [of y 16 y'] by blast
qed

lemma sextets3:
  fixes x y z x' y' z' :: nat
  assumes "y < 256" "z < 256" "y' < 256" "z' < 256"
    and "x div 4 = x' div 4"
    and "(x mod 4) * 16 + y div 16 = (x' mod 4) * 16 + y' div 16"
    and "(y mod 16) * 4 + z div 64 = (y' mod 16) * 4 + z' div 64"
    and "z mod 64 = z' mod 64"
  shows "x = x' \<and> y = y' \<and> z = z'"
proof -
  have "y div 16 < 16" "y' div 16 < 16" using assms(1,3) by simp_all
  from split_pair [OF this assms(6)] have 1: "x mod 4 = x' mod 4" "y div 16 = y' div 16"
    by simp_all
  have "z div 64 < 4" "z' div 64 < 4" using assms(2,4) by simp_all
  from split_pair [OF this assms(7)] have 2: "y mod 16 = y' mod 16" "z div 64 = z' div 64"
    by simp_all
  show ?thesis
    using 1 2 assms(5,8) div_mod_eq [of x 4 x'] div_mod_eq [of y 16 y'] div_mod_eq [of z 64 z']
    by blast
qed

lemma base64_Nil_iff: "base64 xs = [] \<longleftrightarrow> xs = []"
  by (cases xs rule: base64.cases) (simp_all add: Let_def)



lemma digit_eq_iff: "i < 64 \<Longrightarrow> j < 64 \<Longrightarrow> b64_digit i = b64_digit j \<longleftrightarrow> i = j"
  using b64_digit_inj by blast

lemma sextet_bounds:
  fixes x y z :: nat
  assumes "x < 256" "y < 256" "z < 256"
  shows "x div 4 < 64"
  "(x mod 4) * 16 < 64"
  "(x mod 4) * 16 + y div 16 < 64"
  "(y mod 16) * 4 < 64"
  "(y mod 16) * 4 + z div 64 < 64"
  "z mod 64 < 64"
proof -
  show "x div 4 < 64" using assms by simp
  have a: "x mod 4 < 4" "y mod 16 < 16" by simp_all
  have b: "y div 16 < 16" "z div 64 < 4" using assms by simp_all
  show "(x mod 4) * 16 < 64" using a by linarith
  show "(x mod 4) * 16 + y div 16 < 64" using a b by linarith
  show "(y mod 16) * 4 < 64" using a by linarith
  show "(y mod 16) * 4 + z div 64 < 64" using a b by linarith
  show "z mod 64 < 64" by simp
qed

lemmas byte_sextets = sextet_bounds [OF byte_bound byte_bound byte_bound]

lemma block1_inj:
  assumes "base64 [a] = base64 [a']"
  shows "a = a'"
proof -
  from assms have "b64_digit (of_char a div 4) = b64_digit (of_char a' div 4)"
    "b64_digit ((of_char a mod 4) * 16) = b64_digit ((of_char a' mod 4) * 16)"
    by (simp_all add: Let_def)
  then have "of_char a div 4 = (of_char a' :: nat) div 4"
    "(of_char a mod 4) * 16 = (of_char a' mod 4 :: nat) * 16"
    by (simp_all only: digit_eq_iff [OF byte_sextets(1) byte_sextets(1)]
         digit_eq_iff [OF byte_sextets(2) byte_sextets(2)])
  then have "(of_char a :: nat) = of_char a'" by (rule sextets1)
  then show ?thesis by (rule byte_inj)
qed


lemma block2_inj:
  assumes "base64 [a, b] = base64 [a', b']"
  shows "a = a' \<and> b = b'"
proof -
  from assms have "b64_digit (of_char a div 4) = b64_digit (of_char a' div 4)"
    "b64_digit ((of_char a mod 4) * 16 + of_char b div 16) =
     b64_digit ((of_char a' mod 4) * 16 + of_char b' div 16)"
    "b64_digit ((of_char b mod 16) * 4) = b64_digit ((of_char b' mod 16) * 4)"
    by (simp_all add: Let_def)
  then have "of_char a div 4 = (of_char a' :: nat) div 4"
    "(of_char a mod 4) * 16 + of_char b div 16 =
     (of_char a' mod 4 :: nat) * 16 + of_char b' div 16"
    "(of_char b mod 16) * 4 = (of_char b' mod 16 :: nat) * 4"
    by (simp_all only: digit_eq_iff [OF byte_sextets(1) byte_sextets(1)]
         digit_eq_iff [OF byte_sextets(3) byte_sextets(3)]
         digit_eq_iff [OF byte_sextets(4) byte_sextets(4)])
  then have "(of_char a :: nat) = of_char a' \<and> (of_char b :: nat) = of_char b'"
    by (rule sextets2) (rule byte_bound)+
  then show ?thesis by (simp only: byte_inj)
qed

lemma block3_inj:
  assumes "base64 (a # b # c # r) = base64 (a' # b' # c' # r')"
  shows "a = a' \<and> b = b' \<and> c = c' \<and> base64 r = base64 r'"
proof -
  from assms have r: "base64 r = base64 r'"
    and "b64_digit (of_char a div 4) = b64_digit (of_char a' div 4)"
    "b64_digit ((of_char a mod 4) * 16 + of_char b div 16) =
     b64_digit ((of_char a' mod 4) * 16 + of_char b' div 16)"
    "b64_digit ((of_char b mod 16) * 4 + of_char c div 64) =
     b64_digit ((of_char b' mod 16) * 4 + of_char c' div 64)"
    "b64_digit (of_char c mod 64) = b64_digit (of_char c' mod 64)"
    by (simp_all add: Let_def)
  then have "of_char a div 4 = (of_char a' :: nat) div 4"
    "(of_char a mod 4) * 16 + of_char b div 16 =
     (of_char a' mod 4 :: nat) * 16 + of_char b' div 16"
    "(of_char b mod 16) * 4 + of_char c div 64 =
     (of_char b' mod 16 :: nat) * 4 + of_char c' div 64"
    "of_char c mod 64 = (of_char c' :: nat) mod 64"
    by (simp_all only: digit_eq_iff [OF byte_sextets(1) byte_sextets(1)]
         digit_eq_iff [OF byte_sextets(3) byte_sextets(3)]
         digit_eq_iff [OF byte_sextets(5) byte_sextets(5)]
         digit_eq_iff [OF byte_sextets(6) byte_sextets(6)])
  with sextets3 [of "of_char b" "of_char c" "of_char b'" "of_char c'" "of_char a" "of_char a'"]
  have "(of_char a :: nat) = of_char a' \<and> (of_char b :: nat) = of_char b' \<and>
        (of_char c :: nat) = of_char c'"
    using byte_bound by blast
  with r show ?thesis by (simp only: byte_inj simp_thms)
qed

lemma pad_last: "base64 [a] ! 3 = CHR ''=''" "base64 [a, b] ! 3 = CHR ''=''"
  by (simp_all add: Let_def)

lemma pad_third: "base64 [a] ! 2 = CHR ''=''"
  by (simp add: Let_def)

lemma full_last: "base64 (a # b # c # r) ! 3 \<noteq> CHR ''=''"
  using b64_digit_not_pad [OF byte_sextets(6)] by (simp add: Let_def)

lemma two_third: "base64 [a, b] ! 2 \<noteq> CHR ''=''"
  using b64_digit_not_pad [OF byte_sextets(4)] by (simp add: Let_def)

lemma base64_inj: "base64 xs = base64 ys \<Longrightarrow> xs = ys"
proof (induction xs arbitrary: ys rule: base64.induct)
  case 1
  then show ?case by (metis base64_Nil_iff)
next
  case (2 a)
  show ?case
  proof (cases ys rule: base64.cases)
    case 1
    with "2.prems" show ?thesis by (metis base64_Nil_iff)
  next
    case (2 a')
    with "2.prems" show ?thesis using block1_inj by blast
  next
    case (3 a' b')
    with "2.prems" show ?thesis using pad_third [of a] two_third [of a' b'] by metis
  next
    case (4 a' b' c' rest')
    with "2.prems" show ?thesis using pad_last(1) [of a] full_last [of a' b' c' rest'] by metis
  qed
next
  case (3 a b)
  show ?case
  proof (cases ys rule: base64.cases)
    case 1
    with "3.prems" show ?thesis by (metis base64_Nil_iff)
  next
    case (2 a')
    with "3.prems" show ?thesis using pad_third [of a'] two_third [of a b] by metis
  next
    case (3 a' b')
    with "3.prems" show ?thesis using block2_inj by blast
  next
    case (4 a' b' c' rest')
    with "3.prems" show ?thesis using pad_last(2) [of a b] full_last [of a' b' c' rest'] by metis
  qed
next
  case (4 a b c rest)
  show ?case
  proof (cases ys rule: base64.cases)
    case 1
    with "4.prems" show ?thesis by (metis base64_Nil_iff)
  next
    case (2 a')
    with "4.prems" show ?thesis using pad_last(1) [of a'] full_last [of a b c rest] by metis
  next
    case (3 a' b')
    with "4.prems" show ?thesis using pad_last(2) [of a' b'] full_last [of a b c rest] by metis
  next
    case (4 a' b' c' rest')
    with "4.prems" have "a = a' \<and> b = b' \<and> c = c' \<and> base64 rest = base64 rest'"
      using block3_inj by blast
    with "4.IH" 4 show ?thesis by blast
  qed
qed

lemma base64_eq_iff [simp]: "base64 xs = base64 ys \<longleftrightarrow> xs = ys"
  using base64_inj by blast

section \<open>What a run does to the index\<close>

lemma say_frame [simp]:
  "es_docs (say c s) = es_docs s" "dropboxTokens (say c s) = dropboxTokens s"
  "token_requests (say c s) = token_requests s" "clock_reads (say c s) = clock_reads s"
  "es_mappings (say c s) = es_mappings s" "search_requests (say c s) = search_requests s"
  "console_out (say c s) = console_out s @ [c]"
  by (simp_all add: say_def)

lemma refresh_docs: "es_docs (snd (refresh w k sec r s)) = es_docs s"
  by (simp add: refresh_def Let_def split: fetch_outcome.splits option.splits)

lemma refresh_logged_docs: "es_docs (snd (refresh_logged w k sec r s)) = es_docs s"
  using refresh_docs [of w k sec r s]
  by (cases "refresh w k sec r s") (auto simp: refresh_logged_def split: sum.splits)

lemma client_of_state: "snd (client_of s) = s"
  by (simp add: client_of_def split: option.splits)

lemma getDropboxClient_docs: "es_docs (snd (getDropboxClient w s)) = es_docs s"
proof -
  have a: "\<And>k sec r s0. es_docs s0 = es_docs s \<Longrightarrow>
     es_docs (snd (case refresh_logged w k sec r s0 of
                     (Inl e, s') \<Rightarrow> (Inl e, s')
                   | (Inr u, s') \<Rightarrow> client_of s')) = es_docs s"
    subgoal for k sec r s0
      using refresh_logged_docs [of w k sec r s0]
      by (cases "refresh_logged w k sec r s0") (auto simp: client_of_state split: sum.splits)
    done
  show ?thesis
    unfolding getDropboxClient_def
    by (simp add: a client_of_state Let_def split: option.splits)
qed

lemma direct_link_docs: "es_docs (snd (direct_link w f s)) = es_docs s"
  by (simp add: direct_link_def split: sum.splits)

lemma document_path [simp]: "path (document f t l) = path_lower f"
  by (simp add: document_def)

lemma index_file_docs:
  "fst (index_file w f s) \<noteq> Inr () \<and> es_docs (snd (index_file w f s)) = es_docs s \<or>
   (\<exists>t l. fst (index_file w f s) = Inr () \<and>
        es_docs (snd (index_file w f s)) = (es_docs s)(doc_id f \<mapsto> document f t l))"
proof -
  obtain r s1 where g: "getDropboxClient w s = (r, s1)" by fastforce
  then have d1: "es_docs s1 = es_docs s" using getDropboxClient_docs [of w s] by simp
  obtain l s2 where dl: "direct_link w f s1 = (l, s2)" by fastforce
  then have d2: "es_docs s2 = es_docs s" using direct_link_docs [of w f s1] d1 by simp
  show ?thesis
    by (cases r) (auto simp: index_file_def g dl d1 d2 Let_def split: sum.splits option.splits)
qed

lemma process_file_docs:
  "es_docs (process_file w f s) = es_docs s \<or>
   (\<exists>t l. es_docs (process_file w f s) = (es_docs s)(doc_id f \<mapsto> document f t l))"
  using index_file_docs [of w f s]
  by (cases "index_file w f s") (auto simp: process_file_def split: sum.splits)

section \<open>The extension filter\<close>

lemma endsWith_suffix: "endsWith s t \<longleftrightarrow> suffix t s"
proof
  assume "endsWith s t"
  then have "length t \<le> length s" "drop (length s - length t) s = t"
    by (simp_all add: endsWith_def split: if_splits)
  then have "s = take (length s - length t) s @ t"
    by (metis append_take_drop_id)
  then show "suffix t s" by (rule suffixI)
next
  assume "suffix t s"
  then obtain u where "s = u @ t" by (auto simp: suffix_def)
  then show "endsWith s t" by (simp add: endsWith_def)
qed

text \<open>
  C4. The filter keeps an entry exactly when \<open>.txt\<close> is a suffix of its name, compared
  character by character, so case matters: of entries named \<open>a.txt\<close>, \<open>b.md\<close> and
  \<open>c.TXT\<close> (whatever their paths and dates), exactly the first passes.
\<close>

theorem extension_filter_case_sensitive:
  "text_files \<lparr>entries = es, cursor = c, has_more = m\<rparr> =
     filter (\<lambda>e. suffix ''.txt'' (name e)) es \<and>
   text_files
     \<lparr>entries = [\<lparr>name = ''a.txt'', path_lower = p1, server_modified = m1\<rparr>,
                 \<lparr>name = ''b.md'', path_lower = p2, server_modified = m2\<rparr>,
                 \<lparr>name = ''c.TXT'', path_lower = p3, server_modified = m3\<rparr>],
      cursor = c, has_more = m\<rparr> =
     [\<lparr>name = ''a.txt'', path_lower = p1, server_modified = m1\<rparr>]"
  by (simp add: text_files_def endsWith_suffix) (simp add: endsWith_suffix [symmetric] endsWith_def)

section \<open>Idempotent upsert\<close>

lemma keyed_update:
  "keyed_by_path m \<Longrightarrow> keyed_by_path (m(doc_id f \<mapsto> document f t l))"
  by (simp add: keyed_by_path_def doc_id_def)

lemma process_file_keyed:
  "keyed_by_path (es_docs s) \<Longrightarrow> keyed_by_path (es_docs (process_file w f s))"
  using process_file_docs [of w f s] keyed_update by auto

lemma process_files_keyed:
  "keyed_by_path (es_docs s) \<Longrightarrow> keyed_by_path (es_docs (process_files w fs s))"
  by (induction fs arbitrary: s) (simp_all add: process_file_keyed)

lemma process_file_dom:
  "dom (es_docs s) \<subseteq> dom (es_docs (process_file w f s)) \<and>
   dom (es_docs (process_file w f s)) \<subseteq> insert (doc_id f) (dom (es_docs s))"
  using process_file_docs [of w f s] by auto

lemma process_files_dom:
  "dom (es_docs s) \<subseteq> dom (es_docs (process_files w fs s)) \<and>
   dom (es_docs (process_files w fs s)) \<subseteq> dom (es_docs s) \<union> doc_id ` set fs"
proof (induction fs arbitrary: s)
  case Nil
  then show ?case by simp
next
  case (Cons f fs)
  from Cons.IH [of "process_file w f s"] process_file_dom [of s w f]
  show ?case unfolding process_files.simps list.simps(15) image_insert by blast
qed

lemma indexDropboxFiles_docs:
  "es_docs (snd (indexDropboxFiles w s)) = es_docs s \<or>
   (\<exists>r s0. filesListFolder w = Inr r \<and> es_docs s0 = es_docs s \<and>
       es_docs (snd (indexDropboxFiles w s)) = es_docs (process_files w (text_files r) s0))"
proof -
  obtain c s1 where g: "getDropboxClient w s = (c, s1)" by fastforce
  then have d1: "es_docs s1 = es_docs s" using getDropboxClient_docs [of w s] by simp
  show ?thesis
  proof (cases c)
    case (Inl e)
    then show ?thesis by (simp add: indexDropboxFiles_def g d1)
  next
    case c: (Inr dbx)
    show ?thesis
    proof (cases "filesListFolder w")
      case (Inl e)
      then show ?thesis by (simp add: indexDropboxFiles_def g c d1)
    next
      case (Inr r)
      define s0 where "s0 = say (Log (''Found '' @ show_nat (length (text_files r)) @
              '' text files to index'')) s1"
      have "es_docs s0 = es_docs s"
        by (simp add: d1 s0_def)
      moreover have "es_docs (snd (indexDropboxFiles w s)) =
          es_docs (process_files w (text_files r) s0)"
        by (simp add: indexDropboxFiles_def g c Inr Let_def s0_def)
      ultimately show ?thesis
        using Inr by blast
    qed
  qed
qed

lemma indexDropboxFiles_keyed:
  "keyed_by_path (es_docs s) \<Longrightarrow> keyed_by_path (es_docs (snd (indexDropboxFiles w s)))"
  using indexDropboxFiles_docs [of w s] process_files_keyed by (metis (no_types, lifting))

lemma indexDropboxFiles_dom:
  "dom (es_docs s) \<subseteq> dom (es_docs (snd (indexDropboxFiles w s))) \<and>
   dom (es_docs (snd (indexDropboxFiles w s))) \<subseteq> dom (es_docs s) \<union> listed_ids w"
proof -
  from indexDropboxFiles_docs [of w s] show ?thesis
  proof
    assume "es_docs (snd (indexDropboxFiles w s)) = es_docs s"
    then show ?thesis by auto
  next
    assume "\<exists>r s0. filesListFolder w = Inr r \<and> es_docs s0 = es_docs s \<and>
       es_docs (snd (indexDropboxFiles w s)) = es_docs (process_files w (text_files r) s0)"
    then obtain r s0 where r: "filesListFolder w = Inr r" and s0: "es_docs s0 = es_docs s"
      and e: "es_docs (snd (indexDropboxFiles w s)) = es_docs (process_files w (text_files r) s0)"
      by blast
    from process_files_dom [of s0 w "text_files r"] show ?thesis
      by (simp add: e s0 listed_ids_def r)
  qed
qed

lemma keyed_unique:
  assumes "keyed_by_path m" "m i = Some d"
  shows "\<exists>!j. \<exists>d'. m j = Some d' \<and> path d' = path d"
proof
  show "\<exists>d'. m i = Some d' \<and> path d' = path d" using assms(2) by simp
next
  fix j assume "\<exists>d'. m j = Some d' \<and> path d' = path d"
  then obtain d' where d': "m j = Some d'" "path d' = path d" by blast
  from assms(1) d'(1) have "j = base64 (path d')" by (simp add: keyed_by_path_def)
  moreover from assms have "i = base64 (path d)" by (simp add: keyed_by_path_def)
  ultimately show "j = i" using d'(2) by simp
qed

lemma keyed_persist:
  assumes k: "keyed_by_path m'" and sub: "dom m \<subseteq> dom m'" and km: "keyed_by_path m"
    and i: "m i = Some d"
  shows "\<exists>d'. m' i = Some d' \<and> path d' = path d"
proof -
  from i sub obtain d' where d': "m' i = Some d'" by blast
  from k d' have "i = base64 (path d')" by (simp add: keyed_by_path_def)
  moreover from km i have "i = base64 (path d)" by (simp add: keyed_by_path_def)
  ultimately have "path d' = path d" by simp
  with d' show ?thesis by simp
qed

section \<open>Token caching\<close>



lemma refresh_failed:
  assumes "exchange_fails (oauth2_token w (token_requests s) (rtok, key, secret))"
  shows "\<exists>e. refresh_logged w key secret rtok s =
    (Inl e, say (Error ''Error refreshing Dropbox token:'' e)
       (s\<lparr>token_requests := Suc (token_requests s)\<rparr>))"
  using assms
  by (cases "oauth2_token w (token_requests s) (rtok, key, secret)")
     (auto simp: refresh_logged_def refresh_def Let_def)


lemma getDropboxClient_refresh_failed:
  assumes c: "has_credentials w key secret rtok" and n: "needs_refresh w s"
    and o: "exchange_fails (oauth2_token w (token_requests s) (rtok, key, secret))"
  shows "isl (fst (getDropboxClient w s)) \<and>
    token_requests (snd (getDropboxClient w s)) = Suc (token_requests s) \<and>
    dropboxTokens (snd (getDropboxClient w s)) = dropboxTokens s \<and>
    es_docs (snd (getDropboxClient w s)) = es_docs s"
proof (cases "dropboxTokens s")
  case None
  with c refresh_failed [OF o] show ?thesis
    by (auto simp: getDropboxClient_def has_credentials_def)
next
  case (Some t)
  let ?s1 = "s\<lparr>clock_reads := Suc (clock_reads s)\<rparr>"
  have "exchange_fails (oauth2_token w (token_requests ?s1) (rtok, key, secret))"
    using o by simp
  from refresh_failed [OF this] c n Some show ?thesis
    by (auto simp: getDropboxClient_def has_credentials_def needs_refresh_def)
qed

lemma getDropboxClient_no_credentials:
  assumes "\<not> (\<exists>key secret rtok. has_credentials w key secret rtok)"
  shows "getDropboxClient w s = (Inl MissingCredentials, s)"
  using assms
  by (auto simp: getDropboxClient_def has_credentials_def split: option.splits)



text \<open>
  C6, as stated, fails: when the exchange is refused, the error is raised, but the
  expired token is still in the cache afterwards.
\<close>

theorem stale_token_stays_cached:
  "fst (getDropboxClient refusing_world stale_state) = Inl (RefreshFailed ''Unauthorized'') \<and>
   dropboxTokens (snd (getDropboxClient refusing_world stale_state)) =
     Some \<lparr>access_token = ''old'', refresh_token = ''refresh'', expires_at = 0\<rparr>"
  by (simp add: getDropboxClient_def refresh_logged_def refresh_def say_def refusing_world_def
      stale_state_def demo_world_def demo_env_def initial_state_def)

text \<open>
  C6, amended. When the cache needs a refresh and the exchange fails (no response, a
  response that is not ok, or a body that cannot be read), the call raises an error to
  the caller after exactly one exchange, with no retry, and hands out no token; the cache
  is left as it was, so an expired token stays cached.
\<close>

theorem failed_refresh_raises_once:
  assumes "has_credentials w key secret rtok"
    and "needs_refresh w s"
    and "exchange_fails (oauth2_token w (token_requests s) (rtok, key, secret))"
  shows "isl (fst (getDropboxClient w s)) \<and>
         token_requests (snd (getDropboxClient w s)) = Suc (token_requests s) \<and>
         dropboxTokens (snd (getDropboxClient w s)) = dropboxTokens s"
  using getDropboxClient_refresh_failed [OF assms] by simp

theorem failed_refresh_raises_once_witness:
  "isl (fst (getDropboxClient refusing_world stale_state)) \<and>
   token_requests (snd (getDropboxClient refusing_world stale_state)) = 1 \<and>
   dropboxTokens (snd (getDropboxClient refusing_world stale_state)) = dropboxTokens stale_state"
proof -
  have c: "has_credentials refusing_world ''key'' ''secret'' ''refresh''"
    by (simp add: has_credentials_def refusing_world_def demo_world_def demo_env_def)
  have n: "needs_refresh refusing_world stale_state"
    by (simp add: needs_refresh_def stale_state_def refusing_world_def demo_world_def
        initial_state_def)
  have o: "exchange_fails (oauth2_token refusing_world (token_requests stale_state)
      (''refresh'', ''key'', ''secret''))"
    by (simp add: refusing_world_def)
  have z: "token_requests stale_state = 0" by (simp add: stale_state_def initial_state_def)
  from failed_refresh_raises_once [OF c n o] z show ?thesis by simp
qed

section \<open>Link resolution\<close>



lemma direct_link_listing_failed:
  "sharingListSharedLinks w (path_lower f) = Inl e \<Longrightarrow>
   direct_link w f s =
     (''temporary-link-for-'' @ name f,
      say (Warn (''Could not create shared link for '' @ name f @ '', using temporary link'')) s)"
  by (simp add: direct_link_def shared_link_def)

lemma direct_link_creation_failed:
  "sharingListSharedLinks w (path_lower f) = Inr [] \<Longrightarrow>
   sharingCreateSharedLink w (path_lower f) = Inl e \<Longrightarrow>
   direct_link w f s =
     (''temporary-link-for-'' @ name f,
      say (Warn (''Could not create shared link for '' @ name f @ '', using temporary link'')) s)"
  by (simp add: direct_link_def shared_link_def)

lemma index_file_success:
  assumes "getDropboxClient w s = (Inr dbx, s1)"
    and "direct_link w f s1 = (l, s2)"
    and "filesDownload w (path_lower f) = Inr (Some t)"
    and "es_index_request w (doc_id f) (document f t l) = None"
  shows "index_file w f s =
    (Inr (), say (Log (''Indexed file: '' @ name f))
       (s2\<lparr>es_docs := (es_docs s2)(doc_id f \<mapsto> document f t l)\<rparr>))"
  using assms by (simp add: index_file_def)

lemma process_file_success:
  "index_file w f s = (Inr (), s') \<Longrightarrow> process_file w f s = s'"
  by (simp add: process_file_def)

lemma process_file_failure:
  "index_file w f s = (Inl e, s') \<Longrightarrow>
   process_file w f s = say (Error (''Error processing file '' @ name f @ '':'') e) s'"
  by (simp add: process_file_def)

text \<open>
  C8. When both listing and creating a shared link fail for a file, its link is the
  placeholder \<open>temporary-link-for-\<close> followed by the file's name, and a warning is
  written. The file is still downloaded and, when download and index write succeed,
  indexed with its text and the placeholder as its URL; the loop then goes on with the
  remaining files.
\<close>

theorem degraded_link_placeholder:
  assumes "sharingListSharedLinks w (path_lower f) = Inl e1"
    and "sharingCreateSharedLink w (path_lower f) = Inl e2"
    and "getDropboxClient w s = (Inr dbx, s1)"
    and "filesDownload w (path_lower f) = Inr (Some t)"
    and "es_index_request w (doc_id f) (document f t (''temporary-link-for-'' @ name f)) = None"
  shows "direct_link w f s1 =
           (''temporary-link-for-'' @ name f,
            say (Warn (''Could not create shared link for '' @ name f @
                       '', using temporary link'')) s1) \<and>
         fst (index_file w f s) = Inr () \<and>
         es_docs (snd (index_file w f s)) (doc_id f) =
           Some (document f t (''temporary-link-for-'' @ name f)) \<and>
         url (document f t (''temporary-link-for-'' @ name f)) = ''temporary-link-for-'' @ name f \<and>
         content (document f t (''temporary-link-for-'' @ name f)) = t \<and>
         Warn (''Could not create shared link for '' @ name f @ '', using temporary link'')
           \<in> set (console_out (snd (index_file w f s))) \<and>
         process_files w (f # fs) s = process_files w fs (snd (index_file w f s))"
proof -
  note d = direct_link_listing_failed [OF assms(1), of s1]
  note i = index_file_success [OF assms(3) d assms(4,5)]
  from d i show ?thesis
    by (simp add: process_file_success document_def)
qed

theorem degraded_link_placeholder_witness:
  "fst (index_file demo_world file_c initial_state) = Inr () \<and>
   es_docs (snd (index_file demo_world file_c initial_state)) (doc_id file_c) =
     Some (document file_c ''hello world'' ''temporary-link-for-c.txt'') \<and>
   process_files demo_world [file_c, file_a] initial_state =
     process_files demo_world [file_a] (snd (index_file demo_world file_c initial_state))"
proof -
  have l: "sharingListSharedLinks demo_world (path_lower file_c) =
      Inl (DropboxError ''too_many_requests'')"
    by (simp add: demo_world_def file_c_def)
  have c: "sharingCreateSharedLink demo_world (path_lower file_c) =
      Inl (DropboxError ''too_many_requests'')"
    by (simp add: demo_world_def file_c_def)
  have "fst (getDropboxClient demo_world initial_state) = Inr (Dropbox ''token'')"
    by code_simp
  then have g: "getDropboxClient demo_world initial_state =
      (Inr (Dropbox ''token''), snd (getDropboxClient demo_world initial_state))"
    by (simp add: prod_eq_iff)
  have d: "filesDownload demo_world (path_lower file_c) = Inr (Some ''hello world'')"
    by (simp add: demo_world_def file_c_def)
  have i: "es_index_request demo_world (doc_id file_c)
      (document file_c ''hello world'' (''temporary-link-for-'' @ name file_c)) = None"
    by (simp add: demo_world_def)
  have n: "''temporary-link-for-'' @ name file_c = ''temporary-link-for-c.txt''"
    by (simp add: file_c_def)
  from degraded_link_placeholder [OF l c g d i, of "[file_a]"] n show ?thesis
    by simp
qed

section \<open>Search\<close>

text \<open>
  C9. A request whose term is missing or empty is answered with status 400 and the
  error \<open>Search term is required\<close>, and nothing changes: no query is sent. A request
  with a term whose query fails is answered with status 500 and the error
  \<open>Search failed\<close>, whatever the failure was. Otherwise the answer has status 200 and
  the list of mapped hits. In both of the last cases exactly one query was sent.
\<close>

theorem search_endpoint_responses:
  "(q = None \<or> q = Some [] \<longrightarrow>
      search w q s = (\<lparr>status = 400, json = ErrorBody ''Search term is required''\<rparr>, s)) \<and>
   (q = Some t \<and> t \<noteq> [] \<and> es_search w t = Inl e \<longrightarrow>
      fst (search w q s) = \<lparr>status = 500, json = ErrorBody ''Search failed''\<rparr> \<and>
      search_requests (snd (search w q s)) = search_requests s @ [t]) \<and>
   (q = Some t \<and> t \<noteq> [] \<and> es_search w t = Inr hits \<longrightarrow>
      fst (search w q s) = \<lparr>status = 200, json = Results (map to_result hits)\<rparr> \<and>
      search_requests (snd (search w q s)) = search_requests s @ [t])"
  by (auto simp: search_def Let_def)

theorem search_endpoint_responses_witness:
  "search demo_world None initial_state =
     (\<lparr>status = 400, json = ErrorBody ''Search term is required''\<rparr>, initial_state) \<and>
   search demo_world (Some '''') initial_state =
     (\<lparr>status = 400, json = ErrorBody ''Search term is required''\<rparr>, initial_state) \<and>
   fst (search demo_world (Some ''world'') initial_state) =
     \<lparr>status = 500, json = ErrorBody ''Search failed''\<rparr> \<and>
   fst (search demo_world (Some ''hello'') initial_state) =
     \<lparr>status = 200, json = Results [to_result demo_hit]\<rparr>"
proof -
  have e: "es_search demo_world ''world'' = Inl (ElasticError ''unavailable'')"
    by (simp add: demo_world_def)
  have h: "es_search demo_world ''hello'' = Inr [demo_hit]"
    by (simp add: demo_world_def)
  note t = search_endpoint_responses
  from t [of None demo_world initial_state, THEN conjunct1]
    t [of "Some ''''" demo_world initial_state, THEN conjunct1]
    t [of "Some ''world''" demo_world initial_state "''world''" "ElasticError ''unavailable''",
       THEN conjunct2, THEN conjunct1] e
    t [of "Some ''hello''" demo_world initial_state "''hello''" _ "[demo_hit]",
       THEN conjunct2, THEN conjunct2] h
  show ?thesis by simp
qed

text \<open>
  C10. For a term that is not empty and an answer of the index with a list of hits, the
  response lists one result per hit, in the same order. Each result takes filename, url
  and lastModified from the hit's source (empty when absent), its score from the hit (0
  when the hit has none), and as its excerpt the first highlighted fragment of the
  content, or nothing when the hit has no highlight, none for the content, or an empty
  list of fragments.
\<close>

theorem search_hits_mapped:
  assumes "t \<noteq> []" and "es_search w t = Inr hits"
  shows "\<exists>rs. fst (search w (Some t) s) = \<lparr>status = 200, json = Results rs\<rparr> \<and>
           length rs = length hits \<and>
           (\<forall>i < length hits.
              sr_filename (rs ! i) =
                (case hit_source (hits ! i) of None \<Rightarrow> '''' | Some d \<Rightarrow> filename d) \<and>
              sr_url (rs ! i) =
                (case hit_source (hits ! i) of None \<Rightarrow> '''' | Some d \<Rightarrow> url d) \<and>
              sr_lastModified (rs ! i) =
                (case hit_source (hits ! i) of
                   None \<Rightarrow> ''''
                 | Some d \<Rightarrow> (case lastModified d of None \<Rightarrow> '''' | Some m \<Rightarrow> m)) \<and>
              (\<forall>x. hit_score (hits ! i) = Some x \<longrightarrow> sr_score (rs ! i) = x) \<and>
              (hit_score (hits ! i) = None \<longrightarrow> sr_score (rs ! i) = 0) \<and>
              (\<forall>hl x xs. hit_highlight (hits ! i) = Some hl \<and> hl ''content'' = Some (x # xs) \<longrightarrow>
                 sr_excerpt (rs ! i) = Some x) \<and>
              (hit_highlight (hits ! i) = None \<or>
               (\<exists>hl. hit_highlight (hits ! i) = Some hl \<and>
                     (hl ''content'' = None \<or> hl ''content'' = Some [])) \<longrightarrow>
                 sr_excerpt (rs ! i) = None))"
proof -
  have "fst (search w (Some t) s) = \<lparr>status = 200, json = Results (map to_result hits)\<rparr>"
    using assms by (simp add: search_def Let_def)
  moreover have "length (map to_result hits) = length hits" by simp
  moreover have "\<forall>i < length hits.
              sr_filename (map to_result hits ! i) =
                (case hit_source (hits ! i) of None \<Rightarrow> '''' | Some d \<Rightarrow> filename d) \<and>
              sr_url (map to_result hits ! i) =
                (case hit_source (hits ! i) of None \<Rightarrow> '''' | Some d \<Rightarrow> url d) \<and>
              sr_lastModified (map to_result hits ! i) =
                (case hit_source (hits ! i) of
                   None \<Rightarrow> ''''
                 | Some d \<Rightarrow> (case lastModified d of None \<Rightarrow> '''' | Some m \<Rightarrow> m)) \<and>
              (\<forall>x. hit_score (hits ! i) = Some x \<longrightarrow> sr_score (map to_result hits ! i) = x) \<and>
              (hit_score (hits ! i) = None \<longrightarrow> sr_score (map to_result hits ! i) = 0) \<and>
              (\<forall>hl x xs. hit_highlight (hits ! i) = Some hl \<and> hl ''content'' = Some (x # xs) \<longrightarrow>
                 sr_excerpt (map to_result hits ! i) = Some x) \<and>
              (hit_highlight (hits ! i) = None \<or>
               (\<exists>hl. hit_highlight (hits ! i) = Some hl \<and>
                     (hl ''content'' = None \<or> hl ''content'' = Some [])) \<longrightarrow>
                 sr_excerpt (map to_result hits ! i) = None)"
    by (auto simp: to_result_def excerpt_of_def)
  ultimately show ?thesis by blast
qed

theorem search_hits_mapped_witness:
  "\<exists>rs. fst (search demo_world (Some ''hello'') initial_state) = \<lparr>status = 200, json = Results rs\<rparr> \<and>
        length rs = 1 \<and> sr_filename (rs ! 0) = ''a.txt'' \<and> sr_score (rs ! 0) = 1 \<and>
        sr_excerpt (rs ! 0) = Some ''<em>hello</em> world''"
proof -
  have h: "es_search demo_world ''hello'' = Inr [demo_hit]"
    by (simp add: demo_world_def)
  have n: "''hello'' \<noteq> []" by simp
  from search_hits_mapped [OF n h, of initial_state] obtain rs where
    rs: "fst (search demo_world (Some ''hello'') initial_state) = \<lparr>status = 200, json = Results rs\<rparr>"
      "length rs = length [demo_hit]"
      and a: "\<forall>i < length [demo_hit].
              sr_filename (rs ! i) =
                (case hit_source ([demo_hit] ! i) of None \<Rightarrow> '''' | Some d \<Rightarrow> filename d) \<and>
              sr_url (rs ! i) =
                (case hit_source ([demo_hit] ! i) of None \<Rightarrow> '''' | Some d \<Rightarrow> url d) \<and>
              sr_lastModified (rs ! i) =
                (case hit_source ([demo_hit] ! i) of
                   None \<Rightarrow> ''''
                 | Some d \<Rightarrow> (case lastModified d of None \<Rightarrow> '''' | Some m \<Rightarrow> m)) \<and>
              (\<forall>x. hit_score ([demo_hit] ! i) = Some x \<longrightarrow> sr_score (rs ! i) = x) \<and>
              (hit_score ([demo_hit] ! i) = None \<longrightarrow> sr_score (rs ! i) = 0) \<and>
              (\<forall>hl x xs. hit_highlight ([demo_hit] ! i) = Some hl \<and> hl ''content'' = Some (x # xs) \<longrightarrow>
                 sr_excerpt (rs ! i) = Some x) \<and>
              (hit_highlight ([demo_hit] ! i) = None \<or>
               (\<exists>hl. hit_highlight ([demo_hit] ! i) = Some hl \<and>
                     (hl ''content'' = None \<or> hl ''content'' = Some [])) \<longrightarrow>
                 sr_excerpt (rs ! i) = None)"
    by blast
  from a have "sr_filename (rs ! 0) = ''a.txt''" "sr_score (rs ! 0) = 1"
    "sr_excerpt (rs ! 0) = Some ''<em>hello</em> world''"
    by (simp_all add: demo_hit_def document_def file_a_def)
  with rs show ?thesis by simp
qed

section \<open>Failure isolation in the sync run\<close>

lemma say_grows: "prefix (console_out s) (console_out (say c s))"
  by (simp add: say_def)

lemma refresh_console: "prefix (console_out s) (console_out (snd (refresh_logged w k sec r s)))"
  by (cases "oauth2_token w (token_requests s) (r, k, sec)")
     (auto simp: refresh_logged_def refresh_def say_def Let_def split: option.splits)

lemma getDropboxClient_console:
  "prefix (console_out s) (console_out (snd (getDropboxClient w s)))"
proof -
  have a: "\<And>k sec r s0. console_out s0 = console_out s \<Longrightarrow>
     prefix (console_out s) (console_out (snd (case refresh_logged w k sec r s0 of
                     (Inl e, s') \<Rightarrow> (Inl e, s')
                   | (Inr u, s') \<Rightarrow> client_of s')))"
    subgoal for k sec r s0
      using refresh_console [of s0 w k sec r]
      by (cases "refresh_logged w k sec r s0") (auto simp: client_of_state split: sum.splits)
    done
  show ?thesis
    unfolding getDropboxClient_def
    by (simp add: a client_of_state Let_def split: option.splits)
qed

lemma direct_link_console:
  "prefix (console_out s) (console_out (snd (direct_link w f s)))"
  by (simp add: direct_link_def say_def split: sum.splits)

lemma index_file_console:
  "prefix (console_out s) (console_out (snd (index_file w f s)))"
proof -
  obtain r s1 where g: "getDropboxClient w s = (r, s1)" by fastforce
  then have d1: "prefix (console_out s) (console_out s1)"
    using getDropboxClient_console [of s w] by simp
  obtain l s2 where dl: "direct_link w f s1 = (l, s2)" by fastforce
  then have "prefix (console_out s1) (console_out s2)"
    using direct_link_console [of s1 w f] by simp
  with d1 have d2: "prefix (console_out s) (console_out s2)" by (rule prefix_order.trans)
  then have d3: "prefix (console_out s) (console_out s2 @ x)" for x
    by (simp add: prefix_prefix)
  show ?thesis
    by (cases r) (auto simp: index_file_def g dl d1 d2 d3 Let_def say_def split: sum.splits option.splits)
qed

lemma process_file_console:
  "prefix (console_out s) (console_out (process_file w f s))"
  using index_file_console [of s w f]
  by (cases "index_file w f s") (auto simp: process_file_def say_def prefix_prefix split: sum.splits)

lemma process_files_console:
  "prefix (console_out s) (console_out (process_files w fs s))"
proof (induction fs arbitrary: s)
  case Nil
  then show ?case by simp
next
  case (Cons f fs)
  from process_file_console [of s w f] Cons.IH [of "process_file w f s"]
  show ?case by (simp add: prefix_order.trans)
qed

lemma process_files_append:
  "process_files w (pre @ post) s = process_files w post (process_files w pre s)"
  by (induction pre arbitrary: s) simp_all

lemma process_file_logs_failure:
  assumes "fst (index_file w f s) = Inl e"
  shows "Error (''Error processing file '' @ name f @ '':'') e \<in> set (console_out (process_file w f s))"
  using assms by (cases "index_file w f s") (simp add: process_file_def say_def)

lemma process_file_indexes:
  assumes "fst (index_file w f s) = Inr ()"
  shows "doc_id f \<in> dom (es_docs (process_file w f s))"
  using assms index_file_docs [of w f s]
  by (cases "index_file w f s") (auto simp: process_file_def)

lemma index_file_download_failed:
  assumes "getDropboxClient w s = (Inr dbx, s1)" and "filesDownload w (path_lower f) = Inl e"
  shows "fst (index_file w f s) = Inl e"
  using assms by (cases "direct_link w f s1") (simp add: index_file_def)

lemma initializeIndex_fails_iff:
  "isl (fst (initializeIndex w s)) \<longleftrightarrow>
     es_indices_exists w \<noteq> None \<or> (es_mappings s = None \<and> es_indices_create w \<noteq> None)"
  by (auto simp: initializeIndex_def split: option.splits)

lemma indexDropboxFiles_result:
  "fst (indexDropboxFiles w s) =
     (case fst (getDropboxClient w s) of
        Inl e \<Rightarrow> Inl e
      | Inr dbx \<Rightarrow> (case filesListFolder w of Inl e \<Rightarrow> Inl e | Inr r \<Rightarrow> Inr ()))"
  by (cases "getDropboxClient w s")
     (auto simp: indexDropboxFiles_def Let_def split: sum.splits)

lemma startup_result:
  "fst (startup w s) =
     (case fst (getDropboxClient w s) of
        Inl e \<Rightarrow> Inl e
      | Inr dbx \<Rightarrow>
          (case fst (initializeIndex w (snd (getDropboxClient w s))) of
             Inl e \<Rightarrow> Inl e
           | Inr u \<Rightarrow>
               fst (indexDropboxFiles w
                      (snd (initializeIndex w (snd (getDropboxClient w s)))))))"
  apply (cases "getDropboxClient w s")
  subgoal for r1 s1
    apply (cases "initializeIndex w s1")
    subgoal for r2 s2
      by (cases "indexDropboxFiles w s2") (auto simp: startup_def split: sum.splits)
    done
  done

text \<open>
  C2, as stated, fails in its last part: when the token endpoint refuses the exchange, a
  freshly started process aborts its run, although the listing would succeed and nothing
  is wrong with the schema. A failure to obtain the storage client aborts the run too.
\<close>

theorem run_aborts_on_token_failure:
  "fst (indexDropboxFiles refusing_world initial_state) = Inl (RefreshFailed ''Unauthorized'') \<and>
   fst (startup refusing_world initial_state) = Inl (RefreshFailed ''Unauthorized'') \<and>
   es_indices_exists refusing_world = None \<and> es_indices_create refusing_world = None \<and>
   filesListFolder refusing_world =
     Inr \<lparr>entries = [file_a, file_md, file_b, file_c], cursor = ''c1'', has_more = False\<rparr>"
proof -
  have g: "fst (getDropboxClient refusing_world initial_state) = Inl (RefreshFailed ''Unauthorized'')"
    by (simp add: getDropboxClient_def refresh_logged_def refresh_def say_def refusing_world_def
      demo_world_def demo_env_def initial_state_def)
  show ?thesis
    by (simp add: indexDropboxFiles_result startup_result g)
       (simp add: refusing_world_def demo_world_def)
qed

text \<open>
  C3 fails on a listing that comes in pages. The provider answers with a first page
  holding \<open>a.txt\<close> and announcing more; its second page holds \<open>c.txt\<close>, whose name
  ends with \<open>.txt\<close>. The run reads the first page only: it completes, \<open>a.txt\<close> is
  indexed and \<open>c.txt\<close> is not.
\<close>

theorem listing_stops_at_first_page:
  "filesListFolder paged_world = Inr first_page \<and> has_more first_page \<and>
   complete_listing 1 paged_world first_page = Some [file_a, file_c] \<and>
   endsWith (name file_c) ''.txt'' \<and>
   text_files first_page = [file_a] \<and>
   fst (indexDropboxFiles paged_world initial_state) = Inr () \<and>
   es_docs (snd (indexDropboxFiles paged_world initial_state)) (doc_id file_a) =
     Some (document file_a ''hello world'' ''https://dl.dropboxusercontent.com/s/abc'') \<and>
   es_docs (snd (indexDropboxFiles paged_world initial_state)) (doc_id file_c) = None"
  by code_simp

section \<open>First-occurrence replacement\<close>





section \<open>Which entries a run indexes\<close>

lemma index_file_client_failed:
  "fst (getDropboxClient w s) = Inl e \<Longrightarrow> index_file w f s = (Inl e, snd (getDropboxClient w s))"
  by (cases "getDropboxClient w s") (simp add: index_file_def)

lemma index_file_decode_failed:
  assumes "getDropboxClient w s = (Inr dbx, s1)" and "filesDownload w (path_lower f) = Inr None"
  shows "fst (index_file w f s) = Inl TypeError"
  using assms by (cases "direct_link w f s1") (simp add: index_file_def)

lemma index_file_write_failed:
  assumes "getDropboxClient w s = (Inr dbx, s1)"
    and "filesDownload w (path_lower f) = Inr (Some t)"
    and "es_index_request w (doc_id f) (document f t (fst (direct_link w f s1))) = Some e"
  shows "fst (index_file w f s) = Inl e"
  using assms by (cases "direct_link w f s1") (simp add: index_file_def)

lemma index_file_ok_iff: "fst (index_file w f s) = Inr () \<longleftrightarrow> chain_ok w f s"
proof -
  obtain r s1 where g: "getDropboxClient w s = (r, s1)" by fastforce
  obtain l s2 where dl: "direct_link w f s1 = (l, s2)" by fastforce
  show ?thesis
    by (cases r)
       (auto simp: index_file_def chain_ok_def g dl Let_def split: sum.splits option.splits)
qed

lemma index_file_failed_docs:
  "\<not> chain_ok w f s \<Longrightarrow> es_docs (snd (index_file w f s)) = es_docs s"
  using index_file_docs [of w f s] by (auto simp: index_file_ok_iff)

lemma process_file_failed_docs:
  "\<not> chain_ok w f s \<Longrightarrow> es_docs (process_file w f s) = es_docs s"
  using index_file_failed_docs [of w f s]
  by (cases "index_file w f s") (auto simp: process_file_def split: sum.splits)

lemma run_enumerated:
  assumes "enumerates w s fs"
  shows "indexDropboxFiles w s = (Inr (), process_files w fs (loop_start w s fs))"
proof -
  obtain r s1 where g: "getDropboxClient w s = (r, s1)" by fastforce
  from assms g obtain dbx where r: "r = Inr dbx"
    by (cases r) (auto simp: enumerates_def)
  from assms obtain lr where l: "filesListFolder w = Inr lr" "text_files lr = fs"
    by (auto simp: enumerates_def split: sum.splits)
  show ?thesis
    by (simp add: indexDropboxFiles_def g r l loop_start_def Let_def)
qed

lemma run_not_enumerated:
  assumes "\<not> enumerates w s (case filesListFolder w of Inl e \<Rightarrow> [] | Inr r \<Rightarrow> text_files r)"
  shows "isl (fst (indexDropboxFiles w s)) \<and> es_docs (snd (indexDropboxFiles w s)) = es_docs s"
proof -
  obtain r s1 where g: "getDropboxClient w s = (r, s1)" by fastforce
  then have d: "es_docs s1 = es_docs s" using getDropboxClient_docs [of w s] by simp
  from assms g show ?thesis
    by (cases r; cases "filesListFolder w")
       (auto simp: indexDropboxFiles_def enumerates_def d)
qed

lemma loop_entry_indexed:
  assumes "chain_ok w f (process_files w pre s)"
  shows "doc_id f \<in> dom (es_docs (process_files w (pre @ f # post) s))"
proof -
  from assms have "fst (index_file w f (process_files w pre s)) = Inr ()"
    by (simp add: index_file_ok_iff)
  from process_file_indexes [OF this]
  have "doc_id f \<in> dom (es_docs (process_file w f (process_files w pre s)))" .
  then show ?thesis
    using process_files_dom [of "process_file w f (process_files w pre s)" w post]
    by (auto simp: process_files_append)
qed

lemma keyed_at_id:
  assumes "keyed_by_path m" and "doc_id f \<in> dom m"
  shows "\<exists>d. m (doc_id f) = Some d \<and> path d = path_lower f"
proof -
  from assms(2) obtain d where d: "m (doc_id f) = Some d" by blast
  with assms(1) have "doc_id f = base64 (path d)" by (simp add: keyed_by_path_def)
  then have "path d = path_lower f" by (simp add: doc_id_def)
  with d show ?thesis by simp
qed

lemma run_entry_indexed:
  assumes k: "keyed_by_path (es_docs s)"
    and e: "enumerates w s (pre @ f # post)"
    and c: "chain_ok w f (process_files w pre (loop_start w s (pre @ f # post)))"
  shows "\<exists>d. es_docs (snd (indexDropboxFiles w s)) (doc_id f) = Some d \<and> path d = path_lower f"
proof -
  have "doc_id f \<in> dom (es_docs (snd (indexDropboxFiles w s)))"
    using loop_entry_indexed [OF c, of post] by (simp add: run_enumerated [OF e])
  with indexDropboxFiles_keyed [OF k, of w] show ?thesis by (rule keyed_at_id)
qed

lemma process_files_snoc:
  "process_files w (fs @ [f]) s = process_file w f (process_files w fs s)"
  by (simp add: process_files_append)

lemma process_file_dom_exact:
  "dom (es_docs (process_file w f s)) =
     (if chain_ok w f s then insert (doc_id f) (dom (es_docs s)) else dom (es_docs s))"
proof (cases "chain_ok w f s")
  case True
  then have "fst (index_file w f s) = Inr ()" by (simp add: index_file_ok_iff)
  from process_file_indexes [OF this] process_file_dom [of s w f] True
  show ?thesis by auto
next
  case False
  then show ?thesis by (simp add: process_file_failed_docs)
qed

lemma process_files_dom_exact:
  "dom (es_docs (process_files w fs s)) =
     dom (es_docs s) \<union>
     {doc_id f |f pre post. fs = pre @ f # post \<and> chain_ok w f (process_files w pre s)}"
proof (induction fs rule: rev_induct)
  case Nil
  then show ?case by simp
next
  case (snoc g fs)
  let ?A = "\<lambda>xs. {doc_id f |f pre post. xs = pre @ f # post \<and> chain_ok w f (process_files w pre s)}"
  have split: "?A (fs @ [g]) =
      ?A fs \<union> (if chain_ok w g (process_files w fs s) then {doc_id g} else {})"
  proof (intro set_eqI iffI)
    fix i assume "i \<in> ?A (fs @ [g])"
    then obtain f pre post where h: "i = doc_id f" "fs @ [g] = pre @ f # post"
      "chain_ok w f (process_files w pre s)" by blast
    show "i \<in> ?A fs \<union> (if chain_ok w g (process_files w fs s) then {doc_id g} else {})"
    proof (cases post rule: rev_cases)
      case Nil
      with h(2) have "fs = pre" "g = f" by simp_all
      with h show ?thesis by simp
    next
      case (snoc post' x)
      with h(2) have "fs = pre @ f # post'" by simp
      with h show ?thesis by blast
    qed
  next
    fix i assume a: "i \<in> ?A fs \<union> (if chain_ok w g (process_files w fs s) then {doc_id g} else {})"
    show "i \<in> ?A (fs @ [g])"
    proof (cases "i \<in> ?A fs")
      case True
      then obtain f pre post where h: "i = doc_id f" "fs = pre @ f # post"
        "chain_ok w f (process_files w pre s)" by blast
      then have "fs @ [g] = pre @ f # (post @ [g])" by simp
      with h show ?thesis by blast
    next
      case False
      with a have c: "chain_ok w g (process_files w fs s)" "i = doc_id g"
        by (auto split: if_splits)
      have "fs @ [g] = fs @ g # []" by simp
      with c show ?thesis by blast
    qed
  qed
  show ?case
    unfolding process_files_snoc process_file_dom_exact snoc.IH split
    by auto
qed

lemma keyed_has_document:
  assumes "keyed_by_path m"
  shows "has_document m p \<longleftrightarrow> base64 p \<in> dom m"
proof
  assume "has_document m p"
  then obtain j d where d: "m j = Some d" "path d = p" by (auto simp: has_document_def)
  with assms have "j = base64 p" unfolding keyed_by_path_def by blast
  with d show "base64 p \<in> dom m" by blast
next
  assume "base64 p \<in> dom m"
  then obtain d where d: "m (base64 p) = Some d" by blast
  with assms have "base64 p = base64 (path d)" by (simp add: keyed_by_path_def)
  then have "path d = p" by simp
  with d show "has_document m p" by (auto simp: has_document_def)
qed

lemma enumerates_unique: "enumerates w s fs \<Longrightarrow> enumerates w s gs \<Longrightarrow> fs = gs"
  by (auto simp: enumerates_def split: sum.splits)

lemma loop_start_docs [simp]: "es_docs (loop_start w s fs) = es_docs s"
  by (simp add: loop_start_def getDropboxClient_docs)

lemma run_has_document:
  assumes k: "keyed_by_path (es_docs s)"
  shows "has_document (es_docs (snd (indexDropboxFiles w s))) p \<longleftrightarrow>
         has_document (es_docs s) p \<or> chain_succeeds_for w s p"
proof -
  let ?fs = "case filesListFolder w of Inl e \<Rightarrow> [] | Inr r \<Rightarrow> text_files r"
  note k1 = indexDropboxFiles_keyed [OF k, of w]
  show ?thesis
  proof (cases "enumerates w s ?fs")
    case False
    then have n: "\<not> enumerates w s xs" for xs
      by (auto simp: enumerates_def split: sum.splits)
    from run_not_enumerated [OF False] n show ?thesis
      by (simp add: has_document_def chain_succeeds_for_def)
  next
    case True
    let ?A = "{doc_id f |f pre post. ?fs = pre @ f # post \<and>
                 chain_ok w f (process_files w pre (loop_start w s ?fs))}"
    have d: "dom (es_docs (snd (indexDropboxFiles w s))) = dom (es_docs s) \<union> ?A"
      by (simp add: run_enumerated [OF True] process_files_dom_exact)
    have c: "base64 p \<in> ?A \<longleftrightarrow> chain_succeeds_for w s p"
    proof
      assume "base64 p \<in> ?A"
      then obtain f pre post where h: "base64 p = doc_id f" "?fs = pre @ f # post"
        "chain_ok w f (process_files w pre (loop_start w s ?fs))" by blast
      from h(1) have "path_lower f = p" by (simp add: doc_id_def)
      moreover from True h(2) have "enumerates w s (pre @ f # post)" by simp
      ultimately show "chain_succeeds_for w s p"
        using h(2,3) unfolding chain_succeeds_for_def by metis
    next
      assume "chain_succeeds_for w s p"
      then obtain pre f post where h: "enumerates w s (pre @ f # post)" "path_lower f = p"
        "chain_ok w f (process_files w pre (loop_start w s (pre @ f # post)))"
        unfolding chain_succeeds_for_def by blast
      from enumerates_unique [OF True h(1)] have e: "?fs = pre @ f # post" .
      from h(2) have "base64 p = doc_id f" by (simp add: doc_id_def)
      with h(3) e show "base64 p \<in> ?A" by auto
    qed
    show ?thesis
      unfolding keyed_has_document [OF k1] keyed_has_document [OF k] d
      using c by blast
  qed
qed

lemma keyed_exactly_one:
  assumes "keyed_by_path m" and "has_document m p"
  shows "(\<exists>!j. \<exists>d. m j = Some d \<and> path d = p) \<and> (\<exists>d. m (base64 p) = Some d \<and> path d = p)"
proof -
  from assms(2) obtain j d where d: "m j = Some d" "path d = p" by (auto simp: has_document_def)
  with assms(1) have j: "j = base64 p" unfolding keyed_by_path_def by blast
  from keyed_unique [OF assms(1) d(1)] d j show ?thesis by auto
qed

lemma process_file_ok_doc:
  assumes "chain_ok w f s"
  shows "\<exists>t. filesDownload w (path_lower f) = Inr (Some t) \<and>
           es_docs (process_file w f s) (doc_id f) =
             Some (document f t (fst (direct_link w f (snd (getDropboxClient w s)))))"
proof -
  obtain r s1 where g: "getDropboxClient w s = (r, s1)" by fastforce
  obtain l s2 where dl: "direct_link w f s1 = (l, s2)" by fastforce
  from assms g obtain dbx where r: "r = Inr dbx"
    by (cases r) (auto simp: chain_ok_def)
  from assms g r dl obtain t where t: "filesDownload w (path_lower f) = Inr (Some t)"
    "es_index_request w (doc_id f) (document f t l) = None"
    by (auto simp: chain_ok_def split: sum.splits option.splits)
  from index_file_success [OF g [unfolded r] dl t]
  have "es_docs (process_file w f s) (doc_id f) = Some (document f t l)"
    by (simp add: process_file_def)
  with t(1) g dl show ?thesis by simp
qed

text \<open>
  C1, as stated, fails: a listed text file whose download fails is skipped by both runs.
  In the example world \<open>b.txt\<close> is listed in both runs, and after the two runs the index
  holds no document for its path.
\<close>

theorem listed_file_without_document:
  "enumerates demo_world initial_state [file_a, file_b, file_c] \<and>
   enumerates demo_world (snd (indexDropboxFiles demo_world initial_state))
     [file_a, file_b, file_c] \<and>
   path_lower file_b = ''/b.txt'' \<and>
   keyed_by_path (es_docs (snd (indexDropboxFiles demo_world
      (snd (indexDropboxFiles demo_world initial_state))))) \<and>
   es_docs (snd (indexDropboxFiles demo_world
      (snd (indexDropboxFiles demo_world initial_state)))) (base64 ''/b.txt'') = None \<and>
   \<not> has_document (es_docs (snd (indexDropboxFiles demo_world
      (snd (indexDropboxFiles demo_world initial_state))))) ''/b.txt''"
proof -
  let ?s2 = "snd (indexDropboxFiles demo_world (snd (indexDropboxFiles demo_world initial_state)))"
  have e1: "enumerates demo_world initial_state [file_a, file_b, file_c]" by code_simp
  have e2: "enumerates demo_world (snd (indexDropboxFiles demo_world initial_state))
     [file_a, file_b, file_c]" by code_simp
  have p: "path_lower file_b = ''/b.txt''" by (simp add: file_b_def)
  have "keyed_by_path (es_docs initial_state)"
    by (simp add: keyed_by_path_def initial_state_def)
  then have k: "keyed_by_path (es_docs ?s2)"
    by (intro indexDropboxFiles_keyed)
  have n: "es_docs ?s2 (base64 ''/b.txt'') = None" by code_simp
  then have "base64 ''/b.txt'' \<notin> dom (es_docs ?s2)" by (simp add: domIff)
  then have h: "\<not> has_document (es_docs ?s2) ''/b.txt''"
    by (simp only: keyed_has_document [OF k] not_False_eq_True)
  from e1 e2 p k n h show ?thesis by (intro conjI)
qed

text \<open>
  C1, amended. The indexer stores every document under the base64 encoding of the file's
  lowercase path, and this encoding is injective. Starting from an index whose documents
  are stored under the encoding of their path (an empty one, for instance), after each
  of two runs, whatever the outside world answers: a path has a document exactly when
  it had one before the run or the chain of a listed text file with that path succeeded
  in the run; a path that has a document has exactly one, stored under the encoding of
  the path, the same id after both runs. The second run removes nothing and adds no id
  beyond those of the listed text files. A run that obtains its client and its listing
  is the loop over the listed text files; in the loop an entry whose chain succeeds
  writes the document built from its downloaded text under its id, and an entry whose
  chain fails writes nothing.
\<close>

theorem sync_twice_one_document_per_path:
  assumes "keyed_by_path (es_docs s)"
    and "s1 = snd (indexDropboxFiles w1 s)"
    and "s2 = snd (indexDropboxFiles w2 s1)"
  shows "keyed_by_path (es_docs s2) \<and>
         dom (es_docs s1) \<subseteq> dom (es_docs s2) \<and>
         dom (es_docs s2) \<subseteq> dom (es_docs s) \<union> listed_ids w1 \<union> listed_ids w2 \<and>
         (\<forall>i d. es_docs s1 i = Some d \<longrightarrow>
            (\<exists>d'. es_docs s2 i = Some d' \<and> path d' = path d) \<and>
            (\<exists>!j. \<exists>d'. es_docs s2 j = Some d' \<and> path d' = path d)) \<and>
         (\<forall>f g. doc_id f = doc_id g \<longleftrightarrow> path_lower f = path_lower g) \<and>
         (\<forall>p. has_document (es_docs s1) p \<longleftrightarrow>
            has_document (es_docs s) p \<or> chain_succeeds_for w1 s p) \<and>
         (\<forall>p. has_document (es_docs s2) p \<longleftrightarrow>
            has_document (es_docs s1) p \<or> chain_succeeds_for w2 s1 p) \<and>
         (\<forall>p. has_document (es_docs s1) p \<longrightarrow>
            (\<exists>!j. \<exists>d. es_docs s1 j = Some d \<and> path d = p) \<and>
            (\<exists>d. es_docs s1 (base64 p) = Some d \<and> path d = p)) \<and>
         (\<forall>p. has_document (es_docs s2) p \<longrightarrow>
            (\<exists>!j. \<exists>d. es_docs s2 j = Some d \<and> path d = p) \<and>
            (\<exists>d. es_docs s2 (base64 p) = Some d \<and> path d = p)) \<and>
         (\<forall>fs. enumerates w1 s fs \<longrightarrow> s1 = process_files w1 fs (loop_start w1 s fs)) \<and>
         (\<forall>fs. enumerates w2 s1 fs \<longrightarrow> s2 = process_files w2 fs (loop_start w2 s1 fs)) \<and>
         (\<forall>w f st. chain_ok w f st \<longrightarrow>
            (\<exists>t. filesDownload w (path_lower f) = Inr (Some t) \<and>
                 es_docs (process_file w f st) (doc_id f) =
                   Some (document f t (fst (direct_link w f (snd (getDropboxClient w st))))))) \<and>
         (\<forall>w f st. \<not> chain_ok w f st \<longrightarrow> es_docs (process_file w f st) = es_docs st)"
proof -
  have k1: "keyed_by_path (es_docs s1)" using assms(1,2) by (simp add: indexDropboxFiles_keyed)
  then have k2: "keyed_by_path (es_docs s2)" using assms(3) by (simp add: indexDropboxFiles_keyed)
  have d1: "dom (es_docs s) \<subseteq> dom (es_docs s1)" "dom (es_docs s1) \<subseteq> dom (es_docs s) \<union> listed_ids w1"
    using indexDropboxFiles_dom [of s w1] assms(2) by simp_all
  have d2: "dom (es_docs s1) \<subseteq> dom (es_docs s2)" "dom (es_docs s2) \<subseteq> dom (es_docs s1) \<union> listed_ids w2"
    using indexDropboxFiles_dom [of s1 w2] assms(3) by simp_all
  have u: "dom (es_docs s2) \<subseteq> dom (es_docs s) \<union> listed_ids w1 \<union> listed_ids w2"
    using d1(2) d2(2) by blast
  have p: "\<forall>i d. es_docs s1 i = Some d \<longrightarrow>
            (\<exists>d'. es_docs s2 i = Some d' \<and> path d' = path d) \<and>
            (\<exists>!j. \<exists>d'. es_docs s2 j = Some d' \<and> path d' = path d)"
  proof (intro allI impI)
    fix i d assume i: "es_docs s1 i = Some d"
    from keyed_persist [OF k2 d2(1) k1 i] obtain d' where
      d': "es_docs s2 i = Some d'" "path d' = path d" by blast
    from keyed_unique [OF k2 d'(1)] d'
    show "(\<exists>d'. es_docs s2 i = Some d' \<and> path d' = path d) \<and>
            (\<exists>!j. \<exists>d'. es_docs s2 j = Some d' \<and> path d' = path d)" by simp
  qed
  have i: "\<forall>f g. doc_id f = doc_id g \<longleftrightarrow> path_lower f = path_lower g"
    by (simp add: doc_id_def)
  have h1: "\<forall>p. has_document (es_docs s1) p \<longleftrightarrow>
            has_document (es_docs s) p \<or> chain_succeeds_for w1 s p"
    unfolding assms(2) using run_has_document [OF assms(1)] by blast
  have h2: "\<forall>p. has_document (es_docs s2) p \<longleftrightarrow>
            has_document (es_docs s1) p \<or> chain_succeeds_for w2 s1 p"
    unfolding assms(3) using run_has_document [OF k1] by blast
  have x1: "\<forall>p. has_document (es_docs s1) p \<longrightarrow>
            (\<exists>!j. \<exists>d. es_docs s1 j = Some d \<and> path d = p) \<and>
            (\<exists>d. es_docs s1 (base64 p) = Some d \<and> path d = p)"
    using keyed_exactly_one [OF k1] by blast
  have x2: "\<forall>p. has_document (es_docs s2) p \<longrightarrow>
            (\<exists>!j. \<exists>d. es_docs s2 j = Some d \<and> path d = p) \<and>
            (\<exists>d. es_docs s2 (base64 p) = Some d \<and> path d = p)"
    using keyed_exactly_one [OF k2] by blast
  have r1: "\<forall>fs. enumerates w1 s fs \<longrightarrow> s1 = process_files w1 fs (loop_start w1 s fs)"
    by (simp add: assms(2) run_enumerated)
  have r2: "\<forall>fs. enumerates w2 s1 fs \<longrightarrow> s2 = process_files w2 fs (loop_start w2 s1 fs)"
    by (simp add: assms(3) run_enumerated)
  have c: "\<forall>w f st. chain_ok w f st \<longrightarrow>
            (\<exists>t. filesDownload w (path_lower f) = Inr (Some t) \<and>
                 es_docs (process_file w f st) (doc_id f) =
                   Some (document f t (fst (direct_link w f (snd (getDropboxClient w st))))))"
    using process_file_ok_doc by blast
  have n: "\<forall>w f st. \<not> chain_ok w f st \<longrightarrow> es_docs (process_file w f st) = es_docs st"
    using process_file_failed_docs by blast
  from k2 d2(1) u p i h1 h2 x1 x2 r1 r2 c n show ?thesis by (intro conjI)
qed

theorem sync_twice_one_document_per_path_witness:
  "keyed_by_path (es_docs initial_state) \<and>
   chain_succeeds_for demo_world initial_state ''/c.txt'' \<and>
   has_document (es_docs (snd (indexDropboxFiles demo_world
      (snd (indexDropboxFiles demo_world initial_state))))) ''/c.txt'' \<and>
   (\<exists>!j. \<exists>d. es_docs (snd (indexDropboxFiles demo_world
      (snd (indexDropboxFiles demo_world initial_state)))) j = Some d \<and> path d = ''/c.txt'') \<and>
   (\<exists>d. es_docs (snd (indexDropboxFiles demo_world
      (snd (indexDropboxFiles demo_world initial_state)))) (base64 ''/c.txt'') = Some d \<and>
        path d = ''/c.txt'')"
proof -
  let ?s1 = "snd (indexDropboxFiles demo_world initial_state)"
  let ?s2 = "snd (indexDropboxFiles demo_world ?s1)"
  have k: "keyed_by_path (es_docs initial_state)"
    by (simp add: keyed_by_path_def initial_state_def)
  have e: "enumerates demo_world initial_state ([file_a, file_b] @ file_c # [])" by code_simp
  have p: "path_lower file_c = ''/c.txt''" by (simp add: file_c_def)
  have c: "chain_ok demo_world file_c (process_files demo_world [file_a, file_b]
      (loop_start demo_world initial_state ([file_a, file_b] @ file_c # [])))" by code_simp
  from e p c have cs: "chain_succeeds_for demo_world initial_state ''/c.txt''"
    unfolding chain_succeeds_for_def by blast
  note t = sync_twice_one_document_per_path [OF k refl refl, of demo_world demo_world]
  note t6 = t [THEN conjunct2, THEN conjunct2, THEN conjunct2, THEN conjunct2, THEN conjunct2,
      THEN conjunct1, THEN spec, of "''/c.txt''"]
  note t7 = t [THEN conjunct2, THEN conjunct2, THEN conjunct2, THEN conjunct2, THEN conjunct2,
      THEN conjunct2, THEN conjunct1, THEN spec, of "''/c.txt''"]
  note t9 = t [THEN conjunct2, THEN conjunct2, THEN conjunct2, THEN conjunct2, THEN conjunct2,
      THEN conjunct2, THEN conjunct2, THEN conjunct2, THEN conjunct1, THEN spec, of "''/c.txt''"]
  from t6 cs have "has_document (es_docs ?s1) ''/c.txt''" by simp
  with t7 have h: "has_document (es_docs ?s2) ''/c.txt''" by simp
  from t9 [THEN mp, OF h] k cs h show ?thesis by (intro conjI) simp_all
qed

section \<open>Failures of single entries\<close>

lemma loop_failure_logged:
  assumes "fst (index_file w f (process_files w pre s)) = Inl e"
  shows "Error (''Error processing file '' @ name f @ '':'') e
        \<in> set (console_out (process_files w (pre @ f # post) s))"
proof -
  let ?s = "process_files w pre s"
  from process_file_logs_failure [OF assms]
  have "Error (''Error processing file '' @ name f @ '':'') e
      \<in> set (console_out (process_file w f ?s))" .
  moreover have "set (console_out (process_file w f ?s))
      \<subseteq> set (console_out (process_files w post (process_file w f ?s)))"
    using process_files_console [of "process_file w f ?s" w post] by (rule set_mono_prefix)
  ultimately show ?thesis by (auto simp: process_files_append)
qed

lemma run_failure_logged:
  assumes "enumerates w s (pre @ f # post)"
    and "fst (index_file w f (process_files w pre (loop_start w s (pre @ f # post)))) = Inl e"
  shows "Error (''Error processing file '' @ name f @ '':'') e
        \<in> set (console_out (snd (indexDropboxFiles w s)))"
  using loop_failure_logged [OF assms(2), of post] by (simp add: run_enumerated [OF assms(1)])

lemma run_entry_in_dom:
  assumes "enumerates w s (pre @ f # post)"
    and "chain_ok w f (process_files w pre (loop_start w s (pre @ f # post)))"
  shows "doc_id f \<in> dom (es_docs (snd (indexDropboxFiles w s)))"
  using loop_entry_indexed [OF assms(2), of post] by (simp add: run_enumerated [OF assms(1)])

lemma download_failed_chain:
  "filesDownload w (path_lower f) = Inl e \<Longrightarrow> \<not> chain_ok w f s"
  by (cases "getDropboxClient w s") (auto simp: chain_ok_def split: sum.splits)

lemma three_files:
  assumes e: "enumerates w s [f1, f2, f3]"
    and a: "chain_ok w f1 (loop_start w s [f1, f2, f3])"
    and b: "filesDownload w (path_lower f2) = Inl e"
    and c: "chain_ok w f3 (process_files w [f1, f2] (loop_start w s [f1, f2, f3]))"
  shows "fst (indexDropboxFiles w s) = Inr () \<and>
      \<not> chain_ok w f2 (process_files w [f1] (loop_start w s [f1, f2, f3])) \<and>
      doc_id f1 \<in> dom (es_docs (snd (indexDropboxFiles w s))) \<and>
      doc_id f3 \<in> dom (es_docs (snd (indexDropboxFiles w s)))"
proof -
  have e1: "enumerates w s ([] @ f1 # [f2, f3])" using e by simp
  have a1: "chain_ok w f1 (process_files w [] (loop_start w s ([] @ f1 # [f2, f3])))"
    using a by simp
  have e3: "enumerates w s ([f1, f2] @ f3 # [])" using e by simp
  have c3: "chain_ok w f3 (process_files w [f1, f2] (loop_start w s ([f1, f2] @ f3 # [])))"
    using c by simp
  from run_entry_in_dom [OF e1 a1] run_entry_in_dom [OF e3 c3] download_failed_chain [OF b]
  show ?thesis by (simp add: run_enumerated [OF e])
qed

text \<open>
  C2, amended. Every failure in the chain of one entry makes the chain fail with that
  error: obtaining the client, the download, reading the downloaded file, the index
  write; the chain succeeds exactly when none of them fails, whatever the shared links
  answer, and a failed chain writes nothing to the index. A failed chain is caught: the
  loop writes the error with the file's name to the console and goes on with the next
  entry, in listing order. A run that obtains its client and its listing returns
  normally and is this loop over the listed text files: an entry whose chain fails has
  its error in the console when the run ends, and an entry whose chain succeeds has its
  document in the index when the run ends, whatever happens to the entries before and
  after it. In particular, with three text files of which the second fails at the
  download, the first and the third are indexed when the run ends. The run fails exactly
  when obtaining the storage client or the listing fails, and the whole start-up exactly
  when obtaining the client, ensuring the schema or the run fails.
\<close>

theorem sync_failure_isolation:
  "(index_file w f s = (Inl e, s') \<longrightarrow>
      process_files w (f # fs) s =
        process_files w fs (say (Error (''Error processing file '' @ name f @ '':'') e) s')) \<and>
   (fst (getDropboxClient w s) = Inl e \<longrightarrow> fst (index_file w f s) = Inl e) \<and>
   (getDropboxClient w s = (Inr dbx, s1) \<and> filesDownload w (path_lower f) = Inl e \<longrightarrow>
      fst (index_file w f s) = Inl e) \<and>
   (getDropboxClient w s = (Inr dbx, s1) \<and> filesDownload w (path_lower f) = Inr None \<longrightarrow>
      fst (index_file w f s) = Inl TypeError) \<and>
   (getDropboxClient w s = (Inr dbx, s1) \<and> filesDownload w (path_lower f) = Inr (Some t) \<and>
    es_index_request w (doc_id f) (document f t (fst (direct_link w f s1))) = Some e \<longrightarrow>
      fst (index_file w f s) = Inl e) \<and>
   (fst (index_file w f s) = Inr ()) = chain_ok w f s \<and>
   (\<not> chain_ok w f s \<longrightarrow> es_docs (process_file w f s) = es_docs s) \<and>
   process_files w (pre @ f # post) s =
     process_files w post (process_file w f (process_files w pre s)) \<and>
   (fst (index_file w f (process_files w pre s)) = Inl e \<longrightarrow>
      Error (''Error processing file '' @ name f @ '':'') e
        \<in> set (console_out (process_files w (pre @ f # post) s))) \<and>
   (fst (index_file w f (process_files w pre s)) = Inr () \<longrightarrow>
      doc_id f \<in> dom (es_docs (process_files w (pre @ f # post) s))) \<and>
   dom (es_docs s) \<subseteq> dom (es_docs (process_files w fs s)) \<and>
   (isl (fst (indexDropboxFiles w s)) \<longleftrightarrow>
      isl (fst (getDropboxClient w s)) \<or> isl (filesListFolder w)) \<and>
   (isl (fst (startup w s)) \<longleftrightarrow>
      isl (fst (getDropboxClient w s)) \<or>
      isl (fst (initializeIndex w (snd (getDropboxClient w s)))) \<or>
      isl (fst (indexDropboxFiles w (snd (initializeIndex w (snd (getDropboxClient w s))))))) \<and>
   (enumerates w s fs \<longrightarrow>
      indexDropboxFiles w s = (Inr (), process_files w fs (loop_start w s fs))) \<and>
   (enumerates w s (pre @ f # post) \<and>
    fst (index_file w f (process_files w pre (loop_start w s (pre @ f # post)))) = Inl e \<longrightarrow>
      Error (''Error processing file '' @ name f @ '':'') e
        \<in> set (console_out (snd (indexDropboxFiles w s)))) \<and>
   (enumerates w s (pre @ f # post) \<and>
    chain_ok w f (process_files w pre (loop_start w s (pre @ f # post))) \<longrightarrow>
      doc_id f \<in> dom (es_docs (snd (indexDropboxFiles w s)))) \<and>
   (enumerates w s [f1, f2, f3] \<and>
    chain_ok w f1 (loop_start w s [f1, f2, f3]) \<and>
    filesDownload w (path_lower f2) = Inl e \<and>
    chain_ok w f3 (process_files w [f1, f2] (loop_start w s [f1, f2, f3])) \<longrightarrow>
      fst (indexDropboxFiles w s) = Inr () \<and>
      \<not> chain_ok w f2 (process_files w [f1] (loop_start w s [f1, f2, f3])) \<and>
      doc_id f1 \<in> dom (es_docs (snd (indexDropboxFiles w s))) \<and>
      doc_id f3 \<in> dom (es_docs (snd (indexDropboxFiles w s))))"
proof -
  have c1: "(index_file w f s = (Inl e, s') \<longrightarrow>
      process_files w (f # fs) s =
        process_files w fs (say (Error (''Error processing file '' @ name f @ '':'') e) s'))"
    by (simp add: process_file_failure)
  have c2: "(fst (getDropboxClient w s) = Inl e \<longrightarrow> fst (index_file w f s) = Inl e)"
    using index_file_client_failed [of w s e f] by auto
  have c3: "(getDropboxClient w s = (Inr dbx, s1) \<and> filesDownload w (path_lower f) = Inl e \<longrightarrow>
      fst (index_file w f s) = Inl e)"
    using index_file_download_failed by blast
  have c4: "(getDropboxClient w s = (Inr dbx, s1) \<and> filesDownload w (path_lower f) = Inr None \<longrightarrow>
      fst (index_file w f s) = Inl TypeError)"
    using index_file_decode_failed by blast
  have c5: "(getDropboxClient w s = (Inr dbx, s1) \<and> filesDownload w (path_lower f) = Inr (Some t) \<and>
    es_index_request w (doc_id f) (document f t (fst (direct_link w f s1))) = Some e \<longrightarrow>
      fst (index_file w f s) = Inl e)"
    using index_file_write_failed by blast
  have c6: "(fst (index_file w f s) = Inr ()) = chain_ok w f s"
    by (rule index_file_ok_iff)
  have c7: "(\<not> chain_ok w f s \<longrightarrow> es_docs (process_file w f s) = es_docs s)"
    using process_file_failed_docs by blast
  have c8: "process_files w (pre @ f # post) s =
     process_files w post (process_file w f (process_files w pre s))"
    by (simp add: process_files_append)
  have c9: "(fst (index_file w f (process_files w pre s)) = Inl e \<longrightarrow>
      Error (''Error processing file '' @ name f @ '':'') e
        \<in> set (console_out (process_files w (pre @ f # post) s)))"
    using loop_failure_logged by blast
  have c10: "(fst (index_file w f (process_files w pre s)) = Inr () \<longrightarrow>
      doc_id f \<in> dom (es_docs (process_files w (pre @ f # post) s)))"
    using loop_entry_indexed [of w f pre s post] by (simp add: index_file_ok_iff)
  have c11: "dom (es_docs s) \<subseteq> dom (es_docs (process_files w fs s))"
    using process_files_dom [of s w fs] by blast
  have c12: "(isl (fst (indexDropboxFiles w s)) \<longleftrightarrow>
      isl (fst (getDropboxClient w s)) \<or> isl (filesListFolder w))"
    by (simp add: indexDropboxFiles_result split: sum.splits)
  have c13: "(isl (fst (startup w s)) \<longleftrightarrow>
      isl (fst (getDropboxClient w s)) \<or>
      isl (fst (initializeIndex w (snd (getDropboxClient w s)))) \<or>
      isl (fst (indexDropboxFiles w (snd (initializeIndex w (snd (getDropboxClient w s)))))))"
    by (simp add: startup_result split: sum.splits)
  have c14: "(enumerates w s fs \<longrightarrow>
      indexDropboxFiles w s = (Inr (), process_files w fs (loop_start w s fs)))"
    using run_enumerated by blast
  have c15: "(enumerates w s (pre @ f # post) \<and>
    fst (index_file w f (process_files w pre (loop_start w s (pre @ f # post)))) = Inl e \<longrightarrow>
      Error (''Error processing file '' @ name f @ '':'') e
        \<in> set (console_out (snd (indexDropboxFiles w s))))"
    using run_failure_logged by blast
  have c16: "(enumerates w s (pre @ f # post) \<and>
    chain_ok w f (process_files w pre (loop_start w s (pre @ f # post))) \<longrightarrow>
      doc_id f \<in> dom (es_docs (snd (indexDropboxFiles w s))))"
    using run_entry_in_dom by blast
  have c17: "(enumerates w s [f1, f2, f3] \<and>
    chain_ok w f1 (loop_start w s [f1, f2, f3]) \<and>
    filesDownload w (path_lower f2) = Inl e \<and>
    chain_ok w f3 (process_files w [f1, f2] (loop_start w s [f1, f2, f3])) \<longrightarrow>
      fst (indexDropboxFiles w s) = Inr () \<and>
      \<not> chain_ok w f2 (process_files w [f1] (loop_start w s [f1, f2, f3])) \<and>
      doc_id f1 \<in> dom (es_docs (snd (indexDropboxFiles w s))) \<and>
      doc_id f3 \<in> dom (es_docs (snd (indexDropboxFiles w s))))"
    using three_files by blast
  from c1 c2 c3 c4 c5 c6 c7 c8 c9 c10 c11 c12 c13 c14 c15 c16 c17 show ?thesis by (intro conjI)
qed

theorem sync_failure_isolation_witness:
  "fst (indexDropboxFiles demo_world initial_state) = Inr () \<and>
   doc_id file_a \<in> dom (es_docs (snd (indexDropboxFiles demo_world initial_state))) \<and>
   doc_id file_c \<in> dom (es_docs (snd (indexDropboxFiles demo_world initial_state))) \<and>
   \<not> chain_ok demo_world file_b
       (process_files demo_world [file_a] (loop_start demo_world initial_state [file_a, file_b, file_c])) \<and>
   Error ''Error processing file b.txt:'' (DropboxError ''not_found'')
     \<in> set (console_out (snd (indexDropboxFiles demo_world initial_state)))"
proof -
  let ?s0 = "loop_start demo_world initial_state [file_a, file_b, file_c]"
  have e: "enumerates demo_world initial_state [file_a, file_b, file_c]" by code_simp
  have a: "chain_ok demo_world file_a ?s0" by code_simp
  have b: "filesDownload demo_world (path_lower file_b) = Inl (DropboxError ''not_found'')"
    by (simp add: demo_world_def file_b_def)
  have c: "chain_ok demo_world file_c (process_files demo_world [file_a, file_b] ?s0)"
    by code_simp
  have e2: "enumerates demo_world initial_state ([file_a] @ file_b # [file_c])"
    using e by simp
  have f: "fst (index_file demo_world file_b (process_files demo_world [file_a]
      (loop_start demo_world initial_state ([file_a] @ file_b # [file_c])))) =
      Inl (DropboxError ''not_found'')"
    by code_simp
  have n: "''Error processing file '' @ name file_b @ '':'' = ''Error processing file b.txt:''"
    by (simp add: file_b_def)
  note t = sync_failure_isolation [where w = demo_world and s = initial_state]
  note t17 = t [where ?f1.0 = file_a and ?f2.0 = file_b and ?f3.0 = file_c
      and e = "DropboxError ''not_found''", THEN conjunct2, THEN conjunct2, THEN conjunct2, THEN conjunct2, THEN conjunct2, THEN conjunct2, THEN conjunct2, THEN conjunct2, THEN conjunct2, THEN conjunct2, THEN conjunct2, THEN conjunct2, THEN conjunct2, THEN conjunct2, THEN conjunct2, THEN conjunct2, THEN mp, OF conjI [OF e conjI [OF a conjI [OF b c]]]]
  note t15 = t [where f = file_b and pre = "[file_a]" and post = "[file_c]"
      and e = "DropboxError ''not_found''", THEN conjunct2, THEN conjunct2, THEN conjunct2, THEN conjunct2, THEN conjunct2, THEN conjunct2, THEN conjunct2, THEN conjunct2, THEN conjunct2, THEN conjunct2, THEN conjunct2, THEN conjunct2, THEN conjunct2, THEN conjunct2, THEN conjunct1, THEN mp, OF conjI [OF e2 f], unfolded n]
  from t17 t15 show ?thesis by (intro conjI) simp_all
qed

section \<open>Normalizing shared links\<close>




end
